theory Spec2Isabelle
  imports Main "HOL-Library.Word"
begin

unbundle bit_operations_syntax

section \<open>Values decoded from JSON, and run-time panics\<close>

text \<open>
  The package \<open>profile\<close> works on documents decoded by \<open>encoding/json\<close> into
  \<open>interface{}\<close>: \<open>nil\<close>, \<open>bool\<close>, \<open>float64\<close>, \<open>string\<close>, \<open>[]interface{}\<close> and
  \<open>map[string]interface{}\<close>. A Go string is a sequence of bytes, as a HOL \<open>string\<close> is.
  A map is modelled by an association list read with \<open>map_of\<close>. The only use the code
  makes of a number is \<open>int64(v.(float64))\<close>, so a number is carried as that integer.
\<close>

datatype json =
    JNull
  | JBool bool
  | JNumber int
  | JString string
  | JArray "json list"
  | JObject "(string \<times> json) list"

type_synonym jmap = "(string \<times> json) list"

text \<open>
  A failed type assertion, an index out of range, a nil pointer dereference and the
  explicit \<open>panic\<close> of \<open>isEven\<close> all unwind the stack. A function that may panic returns \<open>panic + 'a\<close>.
\<close>

datatype panic =
    TypeAssertion
  | IndexOutOfRange
  | NilDereference
  | InvalidDigit "8 word"

text \<open>\<open>m[k]\<close> with the comma-ok form: the value and whether the key is present.\<close>

definition lookup :: "jmap \<Rightarrow> string \<Rightarrow> json option" where
  "lookup m k = map_of m k"

text \<open>
  The type assertions \<open>v.(T)\<close> of the source. The argument is \<open>None\<close> when the key is
  absent (the map then yields the nil interface, on which every assertion panics).
\<close>

fun assertMap :: "json option \<Rightarrow> panic + jmap" where
  "assertMap (Some (JObject m)) = Inr m"
| "assertMap _ = Inl TypeAssertion"

fun assertArray :: "json option \<Rightarrow> panic + json list" where
  "assertArray (Some (JArray a)) = Inr a"
| "assertArray _ = Inl TypeAssertion"

fun assertString :: "json option \<Rightarrow> panic + string" where
  "assertString (Some (JString s)) = Inr s"
| "assertString _ = Inl TypeAssertion"

fun assertBool :: "json option \<Rightarrow> panic + bool" where
  "assertBool (Some (JBool b)) = Inr b"
| "assertBool _ = Inl TypeAssertion"

fun assertFloat64 :: "json option \<Rightarrow> panic + int" where
  "assertFloat64 (Some (JNumber n)) = Inr n"
| "assertFloat64 _ = Inl TypeAssertion"

text \<open>Sequencing of computations that may panic.\<close>

definition andThen :: "panic + 'a \<Rightarrow> ('a \<Rightarrow> panic + 'b) \<Rightarrow> panic + 'b" where
  "andThen x f = (case x of Inl p \<Rightarrow> Inl p | Inr v \<Rightarrow> f v)"

section \<open>The default model selector\<close>

text \<open>
  Modelled from the spec: the declaration of \<open>Model\<close> is not among the sources; the spec
  gives it as an enumeration of two variants, which \<open>load.go\<close> names \<open>Steve\<close> and \<open>Alex\<close>.
\<close>

datatype Model = Steve | Alex

text \<open>\<open>s[i]\<close> on a Go string: the byte at index \<open>i\<close>, or a panic out of range.\<close>

definition byteAt :: "string \<Rightarrow> nat \<Rightarrow> panic + 8 word" where
  "byteAt s i = (if i < length s then Inr (of_char (s ! i)) else Inl IndexOutOfRange)"

text \<open>\<open>isEven\<close>: the bytes \<open>'0'\<close>..\<open>'9'\<close> are 48..57 and \<open>'a'\<close>..\<open>'f'\<close> are 97..102.\<close>

definition isEven :: "8 word \<Rightarrow> panic + bool" where
  "isEven c =
     (if 48 \<le> c \<and> c \<le> 57 then Inr (c AND 1 = 0)
      else if 97 \<le> c \<and> c \<le> 102 then Inr (c AND 1 = 1)
      else Inl (InvalidDigit c))"

definition defaultModel :: "string \<Rightarrow> panic + Model" where
  "defaultModel uuid =
     andThen (byteAt uuid 7) (\<lambda>c7. andThen (isEven c7) (\<lambda>e7.
     andThen (byteAt uuid (16 + 7)) (\<lambda>c23. andThen (isEven c23) (\<lambda>e23.
     andThen (byteAt uuid 15) (\<lambda>c15. andThen (isEven c15) (\<lambda>e15.
     andThen (byteAt uuid (16 + 15)) (\<lambda>c31. andThen (isEven c31) (\<lambda>e31.
       if (e7 \<noteq> e23) \<noteq> (e15 \<noteq> e31) then Inr Alex else Inr Steve))))))))"

section \<open>The name-history reconstructor\<close>

text \<open>
  An instant as \<open>time.Unix\<close> builds it: whole seconds since the epoch and nanoseconds
  within the second.
\<close>

record time =
  sec :: int
  nsec :: int

text \<open>Go's \<open>/\<close> on integers truncates towards zero.\<close>

definition quo :: "int \<Rightarrow> int \<Rightarrow> int" where
  "quo a b = sgn a * sgn b * (\<bar>a\<bar> div \<bar>b\<bar>)"

text \<open>
  \<open>time.Unix(sec, nsec)\<close> of the standard library: a nanosecond count outside
  \<open>[0, 999999999]\<close> is carried into the seconds.
\<close>

definition Unix :: "int \<Rightarrow> int \<Rightarrow> time" where
  "Unix s ns =
     (if ns < 0 \<or> 1000000000 \<le> ns then
        (let n = quo ns 1000000000; s1 = s + n; ns1 = ns - n * 1000000000
         in if ns1 < 0 then \<lparr>sec = s1 - 1, nsec = ns1 + 1000000000\<rparr>
            else \<lparr>sec = s1, nsec = ns1\<rparr>)
      else \<lparr>sec = s, nsec = ns\<rparr>)"

definition msToTime :: "int \<Rightarrow> time" where
  "msToTime ms = (let s = quo ms 1000; ns = (ms - s * 1000) * 1000000 in Unix s ns)"

text \<open>
  \<open>PastName\<close>, with the two fields \<open>load.go\<close> writes. \<open>Until\<close> is \<open>None\<close> for the zero
  \<open>time.Time\<close> that \<open>make\<close> leaves in a fresh entry and \<open>Some t\<close> once an instant has
  been assigned to it.
\<close>

record PastName =
  Name :: string
  Until :: "time option"

definition zeroPastName :: PastName where
  "zeroPastName = \<lparr>Name = [], Until = None\<rparr>"

text \<open>
  A Go slice is \<open>nil\<close> or a sequence of elements: \<open>None\<close> is the nil slice. Both the nil
  slice and an allocated slice of no elements have length 0.
\<close>

type_synonym 'a slice = "'a list option"

definition elems :: "'a slice \<Rightarrow> 'a list" where
  "elems s = (case s of None \<Rightarrow> [] | Some xs \<Rightarrow> xs)"

text \<open>The assignments \<open>hist[k].Until = t\<close> and \<open>hist[k].Name = s\<close>, with the bounds check.\<close>

definition setUntil :: "PastName list \<Rightarrow> int \<Rightarrow> time \<Rightarrow> panic + PastName list" where
  "setUntil hist k t =
     (if 0 \<le> k \<and> k < int (length hist)
      then Inr (hist[nat k := (hist ! nat k)\<lparr>Until := Some t\<rparr>])
      else Inl IndexOutOfRange)"

definition setName :: "PastName list \<Rightarrow> int \<Rightarrow> string \<Rightarrow> panic + PastName list" where
  "setName hist k s =
     (if 0 \<le> k \<and> k < int (length hist)
      then Inr (hist[nat k := (hist ! nat k)\<lparr>Name := s\<rparr>])
      else Inl IndexOutOfRange)"

text \<open>
  The loop of \<open>buildHistory\<close>: \<open>i\<close> is the index of the element \<open>v\<close> in hand, \<open>h\<close> the
  index the next name goes to. When the range ends without the \<open>break\<close>, \<open>name\<close> is still
  the empty string.
\<close>

fun buildHistoryLoop ::
  "nat \<Rightarrow> json list \<Rightarrow> PastName list \<Rightarrow> int \<Rightarrow> panic + (string \<times> PastName list)" where
  "buildHistoryLoop i [] hist h = Inr ([], hist)"
| "buildHistoryLoop i (v # vs) hist h =
     andThen (assertMap (Some v)) (\<lambda>m.
     andThen (if lookup m ''changedToAt'' \<noteq> None \<and> 0 < i
              then andThen (assertFloat64 (lookup m ''changedToAt''))
                     (\<lambda>ms. setUntil hist (h + 1) (msToTime ms))
              else Inr hist) (\<lambda>hist1.
       if i = length hist1
       then andThen (assertString (lookup m ''name'')) (\<lambda>name. Inr (name, hist1))
       else andThen (assertString (lookup m ''name'')) (\<lambda>name.
            andThen (setName hist1 h name) (\<lambda>hist2.
              buildHistoryLoop (i + 1) vs hist2 (h - 1)))))"

definition buildHistory :: "json list \<Rightarrow> panic + (string \<times> PastName slice)" where
  "buildHistory arr =
     (if length arr = 0 then Inr ([], None)
      else
        (let hist = replicate (length arr - 1) zeroPastName;
             h = int (length hist) - 1
         in andThen (buildHistoryLoop 0 arr hist h) (\<lambda>(name, hist'). Inr (name, Some hist'))))"

section \<open>Errors and the external collaborators\<close>

text \<open>
  The URL templates \<open>loadURL\<close>, \<open>loadAtTimeURL\<close>, \<open>loadWithNameHistoryURL\<close>,
  \<open>loadWithPropertiesURL\<close> and \<open>loadManyURL\<close> are declared outside the sources at hand.
  An endpoint is the template together with the arguments \<open>fmt.Sprintf\<close> fills in.
\<close>

datatype endpoint =
    loadURL string
  | loadAtTimeURL string int
  | loadWithNameHistoryURL string
  | loadWithPropertiesURL string
  | loadManyURL

text \<open>
  The failed-request value of the package \<open>internal\<close>, with the two fields
  \<open>transformError\<close> reads.
\<close>

record ErrFailedRequest =
  StatusCode :: int
  ErrorCode :: string

text \<open>
  The error values \<open>load.go\<close> returns: its own sentinels, \<open>ErrMaxSizeExceeded{n}\<close>,
  \<open>internal.ErrUnknownFormat\<close>, \<open>&url.Error{Op, URL, Err}\<close>, a failed request of the
  transport, and any other error of a collaborator.
\<close>

datatype error =
    ErrNoSuchProfile
  | ErrTooManyRequests
  | ErrMaxSizeExceeded int
  | ErrUnknownFormat
  | UrlError string endpoint error
  | FailedRequest ErrFailedRequest
  | OtherError string

text \<open>
  The functions \<open>load.go\<close> calls without defining them are parameters of the model:
  \<open>internal.FetchJSON\<close> and \<open>internal.ExchangeJSON\<close> (the transport, which answers
  with a decoded document or an error), \<open>internal.UnwrapErrFailedRequest\<close>,
  \<open>base64.StdEncoding.DecodeString\<close> and the \<open>encoding/json\<close> decoding of a byte
  sequence into a \<open>map[string]interface{}\<close>.
\<close>

record deps =
  FetchJSON :: "endpoint \<Rightarrow> error + json"
  ExchangeJSON :: "endpoint \<Rightarrow> string list \<Rightarrow> error + json"
  UnwrapErrFailedRequest :: "error \<Rightarrow> ErrFailedRequest option"
  DecodeString :: "string \<Rightarrow> error + string"
  Decode :: "string \<Rightarrow> error + jmap"

definition transformError :: "deps \<Rightarrow> error \<Rightarrow> error" where
  "transformError d src =
     (case UnwrapErrFailedRequest d src of
        Some e \<Rightarrow>
          if StatusCode e = 204 then ErrNoSuchProfile
          else if ErrorCode e = ''TooManyRequestsException'' then ErrTooManyRequests
          else src
      | None \<Rightarrow> src)"

text \<open>The error a deferred \<open>recover\<close> stores when the document has an unexpected shape.\<close>

definition parseError :: "endpoint \<Rightarrow> error" where
  "parseError url = UrlError ''Parse'' url ErrUnknownFormat"

section \<open>Appearance properties\<close>

text \<open>
  Modelled from the spec: the declaration of \<open>Properties\<close> is not among the sources.
  \<open>load.go\<close> writes its fields \<open>SkinURL\<close>, \<open>CapeURL\<close> and \<open>Model\<close>; \<open>new(Properties)\<close>
  holds empty strings and the zero \<open>Model\<close>, taken to be the first variant.
\<close>

record Properties =
  SkinURL :: string
  CapeURL :: string
  Model :: Model

definition newProperties :: Properties where
  "newProperties = \<lparr>SkinURL = [], CapeURL = [], Model = Steve\<rparr>"

text \<open>
  \<open>populateTextures\<close> from the decoded document \<open>j\<close> on: everything after the two
  decoding steps.
\<close>

definition populateDecoded :: "jmap \<Rightarrow> Properties \<Rightarrow> panic + Properties" where
  "populateDecoded j props =
     andThen (assertMap (lookup j ''textures'')) (\<lambda>ts.
     andThen
       (case lookup ts ''SKIN'' of
          Some s \<Rightarrow>
            andThen (assertMap (Some s)) (\<lambda>skin.
            andThen (assertString (lookup skin ''url'')) (\<lambda>url.
              let props1 = props\<lparr>SkinURL := url, Model := Steve\<rparr> in
              (case lookup skin ''metadata'' of
                 Some s' \<Rightarrow>
                   andThen (assertMap (Some s')) (\<lambda>skinMeta.
                     (case lookup skinMeta ''model'' of
                        Some m \<Rightarrow>
                          andThen (assertString (Some m)) (\<lambda>model.
                            if model = ''slim'' then Inr (props1\<lparr>Model := Alex\<rparr>)
                            else Inr props1)
                      | None \<Rightarrow> Inr props1))
               | None \<Rightarrow> Inr props1)))
        | None \<Rightarrow>
            andThen (assertString (lookup j ''profileId'')) (\<lambda>profileId.
            andThen (defaultModel profileId) (\<lambda>model.
              Inr (props\<lparr>Model := model\<rparr>))))
       (\<lambda>props2.
          (case lookup ts ''CAPE'' of
             Some c \<Rightarrow>
               andThen (assertMap (Some c)) (\<lambda>cape.
               andThen (assertString (lookup cape ''url'')) (\<lambda>url.
                 Inr (props2\<lparr>CapeURL := url\<rparr>)))
           | None \<Rightarrow> Inr props2)))"

text \<open>
  \<open>populateTextures\<close>: the error it returns, and the \<open>Properties\<close> its pointer argument
  refers to afterwards.
\<close>

definition populateTextures ::
  "deps \<Rightarrow> string \<Rightarrow> Properties \<Rightarrow> panic + (error option \<times> Properties)" where
  "populateTextures d enc props =
     (case DecodeString d enc of
        Inl err \<Rightarrow> Inr (Some err, props)
      | Inr bs \<Rightarrow>
          (case Decode d bs of
             Inl err \<Rightarrow> Inr (Some err, props)
           | Inr j \<Rightarrow> andThen (populateDecoded j props) (\<lambda>props'. Inr (None, props'))))"

text \<open>The table \<open>propertyPopulators\<close>, whose only key is \<open>"textures"\<close>.\<close>

definition propertyPopulators ::
  "deps \<Rightarrow> string \<Rightarrow> (string \<Rightarrow> Properties \<Rightarrow> panic + (error option \<times> Properties)) option" where
  "propertyPopulators d name = (if name = ''textures'' then Some (populateTextures d) else None)"

fun buildPropertiesLoop ::
  "deps \<Rightarrow> json list \<Rightarrow> Properties \<Rightarrow> panic + (Properties option \<times> error option)" where
  "buildPropertiesLoop d [] ps = Inr (Some ps, None)"
| "buildPropertiesLoop d (p # rest) ps =
     andThen (assertMap (Some p)) (\<lambda>prop.
     andThen (assertString (lookup prop ''name'')) (\<lambda>name.
     andThen (assertString (lookup prop ''value'')) (\<lambda>value.
       (case propertyPopulators d name of
          Some parser \<Rightarrow>
            andThen (parser value ps) (\<lambda>(err, ps').
              (case err of
                 Some e \<Rightarrow> Inr (None, Some e)
               | None \<Rightarrow> buildPropertiesLoop d rest ps'))
        | None \<Rightarrow> buildPropertiesLoop d rest ps))))"

definition buildProperties ::
  "deps \<Rightarrow> json list \<Rightarrow> panic + (Properties option \<times> error option)" where
  "buildProperties d props = buildPropertiesLoop d props newProperties"

section \<open>The profile assembler and the load operations\<close>

text \<open>
  \<open>Profile\<close>, with the fields \<open>load.go\<close> writes. The field \<open>Name\<close> of the source is
  \<open>ProfileName\<close> here, \<open>Name\<close> being a field of \<open>PastName\<close> already. \<open>NameHistory\<close> is
  a slice and \<open>Properties\<close> a pointer: both can be nil.
\<close>

record Profile =
  ID :: string
  ProfileName :: string
  NameHistory :: "PastName slice"
  Properties :: "Properties option"

text \<open>\<open>emptyHist\<close>: an allocated slice of no elements.\<close>

definition emptyHist :: "PastName slice" where
  "emptyHist = Some []"

text \<open>\<open>t, present := m[k]; present && t.(bool)\<close>: the assertion runs only on a present key.\<close>

definition flagSet :: "jmap \<Rightarrow> string \<Rightarrow> panic + bool" where
  "flagSet m k = (case lookup m k of None \<Rightarrow> Inr False | Some t \<Rightarrow> assertBool (Some t))"

text \<open>
  \<open>buildProfile\<close> returns the pair \<open>(*Profile, error)\<close>; either component can be nil.
\<close>

definition buildProfile :: "jmap \<Rightarrow> error \<Rightarrow> panic + (Profile option \<times> error option)" where
  "buildProfile m demoErr =
     andThen (flagSet m ''demo'') (\<lambda>demo.
       if demo then Inr (None, Some demoErr)
       else
         andThen (assertString (lookup m ''id'')) (\<lambda>id'.
         andThen (assertString (lookup m ''name'')) (\<lambda>name.
           let p = \<lparr>ID = id', ProfileName = name, NameHistory = None, Properties = None\<rparr> in
           andThen (flagSet m ''legacy'') (\<lambda>legacy.
             Inr (Some (if legacy then p\<lparr>NameHistory := emptyHist\<rparr> else p), None)))))"

text \<open>
  \<open>loadByName\<close>. The deferred function stores the parse error when the body panics; \<open>p\<close>
  is then still nil, its only assignment being the one whose right-hand side panicked.
\<close>

definition loadByName :: "deps \<Rightarrow> endpoint \<Rightarrow> Profile option \<times> error option" where
  "loadByName d endpoint =
     (case FetchJSON d endpoint of
        Inr j \<Rightarrow>
          (case andThen (assertMap (Some j)) (\<lambda>m. buildProfile m ErrNoSuchProfile) of
             Inl _ \<Rightarrow> (None, Some (parseError endpoint))
           | Inr (p, err) \<Rightarrow> (p, err))
      | Inl err \<Rightarrow> (None, Some (transformError d err)))"

definition Load :: "deps \<Rightarrow> string \<Rightarrow> Profile option \<times> error option" where
  "Load d username =
     (if username = [] then (None, Some ErrNoSuchProfile)
      else loadByName d (loadURL username))"

text \<open>\<open>LoadAtTime\<close>; \<open>tm\<close> is \<open>tm.Unix()\<close>, the instant in seconds.\<close>

definition LoadAtTime :: "deps \<Rightarrow> string \<Rightarrow> int \<Rightarrow> Profile option \<times> error option" where
  "LoadAtTime d username tm =
     (if username = [] then (None, Some ErrNoSuchProfile)
      else loadByName d (loadAtTimeURL username tm))"

definition LoadWithNameHistory :: "deps \<Rightarrow> string \<Rightarrow> Profile option \<times> error option" where
  "LoadWithNameHistory d id' =
     (if id' = [] then (None, Some ErrNoSuchProfile)
      else
        (case FetchJSON d (loadWithNameHistoryURL id') of
           Inr j \<Rightarrow>
             (case andThen (assertArray (Some j)) buildHistory of
                Inl _ \<Rightarrow> (None, Some (parseError (loadWithNameHistoryURL id')))
              | Inr (name, hist) \<Rightarrow>
                  (Some \<lparr>ID = id', ProfileName = name, NameHistory = hist, Properties = None\<rparr>,
                   None))
         | Inl err \<Rightarrow> (None, Some (transformError d err))))"

definition LoadByID :: "deps \<Rightarrow> string \<Rightarrow> Profile option \<times> error option" where
  "LoadByID d id' = LoadWithNameHistory d id'"

text \<open>
  \<open>LoadWithProperties\<close>. Here the deferred function also resets \<open>p\<close> to nil.
\<close>

definition LoadWithProperties :: "deps \<Rightarrow> string \<Rightarrow> Profile option \<times> error option" where
  "LoadWithProperties d id' =
     (if id' = [] then (None, Some ErrNoSuchProfile)
      else
        (let endpoint = loadWithPropertiesURL id' in
         case FetchJSON d endpoint of
           Inr j \<Rightarrow>
             (case
                andThen (assertMap (Some j)) (\<lambda>m.
                andThen (buildProfile m ErrNoSuchProfile) (\<lambda>(p, err).
                  if err \<noteq> None then Inr (p, err)
                  else
                    andThen (assertArray (lookup m ''properties'')) (\<lambda>props.
                    andThen (buildProperties d props) (\<lambda>(ps, err').
                      (case p of
                         None \<Rightarrow> Inl NilDereference
                       | Some pr \<Rightarrow>
                           (case err' of
                              Some e \<Rightarrow> Inr (None, Some (UrlError ''Parse'' endpoint e))
                            | None \<Rightarrow> Inr (Some (pr\<lparr>Properties := ps\<rparr>), None)))))))
              of
                Inl _ \<Rightarrow> (None, Some (parseError endpoint))
              | Inr r \<Rightarrow> r)
         | Inl err \<Rightarrow> (None, Some (transformError d err))))"

definition LoadManyMaxSize :: nat where
  "LoadManyMaxSize = 100"

text \<open>
  The first loop of \<open>LoadMany\<close>: the non-empty usernames are stored one after the other
  in the array \<open>users\<close>, \<open>c\<close> counting them.
\<close>

fun collectUsers :: "string list \<Rightarrow> string list \<Rightarrow> nat \<Rightarrow> panic + (string list \<times> nat)" where
  "collectUsers [] users c = Inr (users, c)"
| "collectUsers (u # us) users c =
     (if u \<noteq> [] then
        (if c < length users then collectUsers us (users[c := u]) (c + 1)
         else Inl IndexOutOfRange)
      else collectUsers us users c)"

text \<open>
  The second loop of \<open>LoadMany\<close>, over the documents of the answer; \<open>ps\<close> is a slice of
  pointers.
\<close>

fun loadManyLoop ::
  "json list \<Rightarrow> Profile option list \<Rightarrow> panic + (Profile option slice \<times> error option)" where
  "loadManyLoop [] ps = Inr (Some ps, None)"
| "loadManyLoop (p # rest) ps =
     andThen (assertMap (Some p)) (\<lambda>m.
     andThen (buildProfile m ErrNoSuchProfile) (\<lambda>(pr, err).
       (case err of
          Some e \<Rightarrow> if e = ErrNoSuchProfile then loadManyLoop rest ps else Inr (None, Some e)
        | None \<Rightarrow> loadManyLoop rest (ps @ [pr]))))"

text \<open>
  \<open>LoadMany\<close> returns the pair \<open>(ps, err)\<close>; the model gives besides it the requests
  handed to the transport, in order. A panic of the first loop is not recovered.
\<close>

definition LoadMany ::
  "deps \<Rightarrow> string list \<Rightarrow>
     panic + ((Profile option slice \<times> error option) \<times> (endpoint \<times> string list) list)" where
  "LoadMany d username =
     (if length username > LoadManyMaxSize
      then Inr ((None, Some (ErrMaxSizeExceeded (int (length username)))), [])
      else
        andThen (collectUsers username (replicate LoadManyMaxSize []) 0) (\<lambda>(users, c).
          if c = 0 then Inr ((None, None), [])
          else
            (let payload = take c users; sent = [(loadManyURL, payload)] in
             case ExchangeJSON d loadManyURL payload of
               Inr j \<Rightarrow>
                 (case andThen (assertArray (Some j)) (\<lambda>js. loadManyLoop js []) of
                    Inl _ \<Rightarrow> Inr ((None, Some (parseError loadManyURL)), sent)
                  | Inr r \<Rightarrow> Inr (r, sent))
             | Inl err \<Rightarrow> Inr ((None, Some (transformError d err)), sent))))"

section \<open>Notions used in the statements\<close>

subsection \<open>Name-change events\<close>

text \<open>
  What \<open>buildHistory\<close> reads from one element of its argument: the string under
  \<open>"name"\<close> and the value under \<open>"changedToAt"\<close>.
\<close>

fun nameOf :: "json \<Rightarrow> string option" where
  "nameOf (JObject m) = (case lookup m ''name'' of Some (JString s) \<Rightarrow> Some s | _ \<Rightarrow> None)"
| "nameOf _ = None"

fun changedToAt :: "json \<Rightarrow> json option" where
  "changedToAt (JObject m) = lookup m ''changedToAt''"
| "changedToAt _ = None"

fun instantOf :: "json option \<Rightarrow> time option" where
  "instantOf (Some (JNumber n)) = Some (msToTime n)"
| "instantOf _ = None"

text \<open>
  An event is well formed when it is an object with a string \<open>"name"\<close> whose
  \<open>"changedToAt"\<close>, if present, is a number. Of the first event of a list only the name
  is required.
\<close>

definition wellFormedEvent :: "json \<Rightarrow> bool" where
  "wellFormedEvent v =
     (nameOf v \<noteq> None \<and>
      (case changedToAt v of None \<Rightarrow> True | Some (JNumber n) \<Rightarrow> True | Some _ \<Rightarrow> False))"

definition wellFormedEvents :: "json list \<Rightarrow> bool" where
  "wellFormedEvents arr =
     (case arr of [] \<Rightarrow> True | v # vs \<Rightarrow> nameOf v \<noteq> None \<and> list_all wellFormedEvent vs)"

definition carriesInstant :: "json \<Rightarrow> bool" where
  "carriesInstant v = (case changedToAt v of Some (JNumber n) \<Rightarrow> True | _ \<Rightarrow> False)"

text \<open>
  The history of a well-formed list, written directly: one entry per pair of neighbours,
  the later pairs first.
\<close>

definition pastNames :: "json list \<Rightarrow> PastName list" where
  "pastNames vs =
     rev (map (\<lambda>(a, b). \<lparr>Name = the (nameOf a), Until = instantOf (changedToAt b)\<rparr>)
            (zip vs (tl vs)))"

text \<open>
  Two fragments of the loop body, named for the proofs: the assignment to the entry
  written one iteration earlier, and its effect on the part of \<open>hist\<close> already written.
\<close>

definition untilStep :: "nat \<Rightarrow> jmap \<Rightarrow> PastName list \<Rightarrow> int \<Rightarrow> panic + PastName list" where
  "untilStep i m hist h =
     (if lookup m ''changedToAt'' \<noteq> None \<and> 0 < i
      then andThen (assertFloat64 (lookup m ''changedToAt''))
             (\<lambda>ms. setUntil hist (h + 1) (msToTime ms))
      else Inr hist)"

definition closeHead :: "json \<Rightarrow> PastName list \<Rightarrow> PastName list" where
  "closeHead v rest =
     (case rest of
        [] \<Rightarrow> []
      | r # rs \<Rightarrow>
          (case changedToAt v of
             None \<Rightarrow> r
           | Some _ \<Rightarrow> r\<lparr>Until := instantOf (changedToAt v)\<rparr>) # rs)"

text \<open>Events to run the reconstructor on: three names, and a first event that carries an instant.\<close>

definition exampleEvents :: "json list" where
  "exampleEvents =
     [JObject [(''name'', JString ''A'')],
      JObject [(''name'', JString ''B''), (''changedToAt'', JNumber 1000)],
      JObject [(''name'', JString ''C''), (''changedToAt'', JNumber 2500)]]"

definition exampleFirstEvent :: json where
  "exampleFirstEvent = JObject [(''name'', JString ''A''), (''changedToAt'', JNumber 77)]"

subsection \<open>Hexadecimal digits\<close>

text \<open>
  The lower-case hexadecimal digits as bytes, and the number a digit stands for: 0 to 9
  for \<open>'0'\<close>..\<open>'9'\<close> and 10 to 15 for \<open>'a'\<close>..\<open>'f'\<close>. \<open>evenDigitSpec\<close> is the
  classification in the specification's words (a decimal digit of even value, or a letter
  of odd value); \<open>evenDigit\<close> is the one the code computes (a digit of even value).
  \<open>selectModel\<close> is the selection rule in the specification's words, over a
  classification of the digits.
\<close>

definition lowerHex :: "8 word \<Rightarrow> bool" where
  "lowerHex c = ((48 \<le> c \<and> c \<le> 57) \<or> (97 \<le> c \<and> c \<le> 102))"

definition hexValue :: "8 word \<Rightarrow> nat" where
  "hexValue c = (if 48 \<le> c \<and> c \<le> 57 then unat c - 48 else unat c - 87)"

definition evenDigitSpec :: "8 word \<Rightarrow> bool" where
  "evenDigitSpec c =
     ((48 \<le> c \<and> c \<le> 57 \<and> even (hexValue c)) \<or> (97 \<le> c \<and> c \<le> 102 \<and> odd (hexValue c)))"

definition evenDigit :: "8 word \<Rightarrow> bool" where
  "evenDigit c =
     ((48 \<le> c \<and> c \<le> 57 \<and> even (hexValue c)) \<or> (97 \<le> c \<and> c \<le> 102 \<and> even (hexValue c)))"

definition selectModel :: "(8 word \<Rightarrow> bool) \<Rightarrow> string \<Rightarrow> Model" where
  "selectModel evenness uuid =
     (let X = (evenness (of_char (uuid ! 7)) \<noteq> evenness (of_char (uuid ! 23)));
          Y = (evenness (of_char (uuid ! 15)) \<noteq> evenness (of_char (uuid ! 31)))
      in if X \<noteq> Y then Alex else Steve)"

definition exampleUUID :: string where
  "exampleUUID = ''0000000a000000000000000000000000''"

definition exampleUUID2 :: string where
  "exampleUUID2 = ''ffffffffffffffffffffffffffffffff''"

definition exampleUUID3 :: string where
  "exampleUUID3 = ''0123456f89abcdef0000000f5555555fzz''"

subsection \<open>Stand-ins for the collaborators\<close>

text \<open>
  Concrete collaborators to run the operations on: an unwrapping that finds a failed
  request at the top of an error or inside a \<open>url.Error\<close>, a transport given by its
  answers, and decoders that accept one input each. \<open>noTransport\<close> fails every request.
\<close>

definition exampleUnwrap :: "error \<Rightarrow> ErrFailedRequest option" where
  "exampleUnwrap e =
     (case e of
        FailedRequest r \<Rightarrow> Some r
      | UrlError _ _ (FailedRequest r) \<Rightarrow> Some r
      | _ \<Rightarrow> None)"

definition exampleDeps :: "(endpoint \<Rightarrow> error + json) \<Rightarrow> (string list \<Rightarrow> error + json) \<Rightarrow> deps" where
  "exampleDeps fetch exchange =
     \<lparr>FetchJSON = fetch,
      ExchangeJSON = (\<lambda>_. exchange),
      UnwrapErrFailedRequest = exampleUnwrap,
      DecodeString = (\<lambda>s. if s = ''!'' then Inl (OtherError ''illegal base64 data'') else Inr s),
      Decode = (\<lambda>bs. if bs = ''{}'' then Inr [] else Inl (OtherError ''invalid character''))\<rparr>"

definition noTransport :: deps where
  "noTransport = exampleDeps (\<lambda>_. Inl (OtherError ''no route to host'')) (\<lambda>_. Inl (OtherError ''no route to host''))"

subsection \<open>Profile documents\<close>

text \<open>
  A document flagged as a demo account whose other fields are not even of the expected
  types, a document with empty identifier and name, and a transport that answers every
  request with the empty array.
\<close>

definition demoDocument :: jmap where
  "demoDocument = [(''id'', JNumber 7), (''demo'', JBool True), (''legacy'', JString ''?'')]"

definition blankDocument :: jmap where
  "blankDocument = [(''id'', JString []), (''name'', JString [])]"

definition emptyHistoryDeps :: deps where
  "emptyHistoryDeps = exampleDeps (\<lambda>_. Inr (JArray [])) (\<lambda>_. Inr (JArray []))"

subsection \<open>Batches\<close>

text \<open>
  The usernames \<open>LoadMany\<close> sends are the non-empty ones, in order. \<open>entryProfile\<close> is
  what one iteration of its second loop computes from a document of the answer, and
  \<open>keptProfiles\<close> collects the profiles of the documents that yield one, leaving out
  those that yield an error. Two answers to run the operation on: one with a demo
  document between two profiles, one whose second document lacks its name.
\<close>

definition nonBlank :: "string list \<Rightarrow> string list" where
  "nonBlank us = filter (\<lambda>u. u \<noteq> []) us"

definition entryProfile :: "json \<Rightarrow> panic + (Profile option \<times> error option)" where
  "entryProfile doc = andThen (assertMap (Some doc)) (\<lambda>m. buildProfile m ErrNoSuchProfile)"

definition keptProfiles :: "json list \<Rightarrow> Profile option list" where
  "keptProfiles docs =
     concat (map (\<lambda>doc. case entryProfile doc of Inr (pr, None) \<Rightarrow> [pr] | _ \<Rightarrow> []) docs)"

definition mixedBatch :: "json list" where
  "mixedBatch =
     [JObject [(''id'', JString ''069a79f4''), (''name'', JString ''Notch'')],
      JObject demoDocument,
      JObject [(''id'', JString ''853c80ef''), (''name'', JString ''jeb_''), (''legacy'', JBool True)]]"

definition brokenBatch :: "json list" where
  "brokenBatch =
     [JObject [(''id'', JString ''069a79f4''), (''name'', JString ''Notch'')],
      JObject [(''id'', JString ''853c80ef'')]]"

definition batchDeps :: "json list \<Rightarrow> deps" where
  "batchDeps docs =
     exampleDeps (\<lambda>_. Inl (FailedRequest \<lparr>StatusCode = 204, ErrorCode = []\<rparr>)) (\<lambda>_. Inr (JArray docs))"

subsection \<open>Textures documents\<close>

text \<open>
  \<open>slimSkin\<close>: the \<open>"SKIN"\<close> entry carries \<open>metadata.model = "slim"\<close>. A textures document
  is well formed when \<open>"textures"\<close> is an object; its \<open>"SKIN"\<close>, if present, is an object
  with a string \<open>"url"\<close> whose \<open>"metadata"\<close>, if present, is an object whose \<open>"model"\<close>,
  if present, is a string; without a \<open>"SKIN"\<close>, \<open>"profileId"\<close> is a string of at least
  32 bytes with hexadecimal digits at the four places \<open>defaultModel\<close> reads; and its
  \<open>"CAPE"\<close>, if present, is an object with a string \<open>"url"\<close>.
\<close>

definition hasString :: "jmap \<Rightarrow> string \<Rightarrow> bool" where
  "hasString m k = (case lookup m k of Some (JString _) \<Rightarrow> True | _ \<Rightarrow> False)"

definition slimSkin :: "json \<Rightarrow> bool" where
  "slimSkin s =
     (case s of
        JObject skin \<Rightarrow>
          (case lookup skin ''metadata'' of
             Some (JObject skinMeta) \<Rightarrow> lookup skinMeta ''model'' = Some (JString ''slim'')
           | _ \<Rightarrow> False)
      | _ \<Rightarrow> False)"

definition wellFormedSkin :: "json \<Rightarrow> bool" where
  "wellFormedSkin s =
     (case s of
        JObject skin \<Rightarrow>
          hasString skin ''url'' \<and>
          (case lookup skin ''metadata'' of
             None \<Rightarrow> True
           | Some (JObject skinMeta) \<Rightarrow> lookup skinMeta ''model'' = None \<or> hasString skinMeta ''model''
           | Some _ \<Rightarrow> False)
      | _ \<Rightarrow> False)"

definition wellFormedCape :: "json \<Rightarrow> bool" where
  "wellFormedCape c = (case c of JObject cape \<Rightarrow> hasString cape ''url'' | _ \<Rightarrow> False)"

definition wellFormedId :: "json option \<Rightarrow> bool" where
  "wellFormedId v =
     (case v of
        Some (JString uuid) \<Rightarrow>
          32 \<le> length uuid \<and> lowerHex (of_char (uuid ! 7)) \<and> lowerHex (of_char (uuid ! 15)) \<and>
          lowerHex (of_char (uuid ! 23)) \<and> lowerHex (of_char (uuid ! 31))
      | _ \<Rightarrow> False)"

definition wellFormedTextures :: "jmap \<Rightarrow> bool" where
  "wellFormedTextures j =
     (case lookup j ''textures'' of
        Some (JObject ts) \<Rightarrow>
          (case lookup ts ''SKIN'' of
             Some s \<Rightarrow> wellFormedSkin s
           | None \<Rightarrow> wellFormedId (lookup j ''profileId'')) \<and>
          (case lookup ts ''CAPE'' of Some c \<Rightarrow> wellFormedCape c | None \<Rightarrow> True)
      | _ \<Rightarrow> False)"

text \<open>
  The two halves of \<open>populateDecoded\<close>, named for the proofs: the skin and the model,
  then the cape.
\<close>

definition skinStep :: "jmap \<Rightarrow> jmap \<Rightarrow> Properties \<Rightarrow> panic + Properties" where
  "skinStep j ts props =
       (case lookup ts ''SKIN'' of
          Some s \<Rightarrow>
            andThen (assertMap (Some s)) (\<lambda>skin.
            andThen (assertString (lookup skin ''url'')) (\<lambda>url.
              let props1 = props\<lparr>SkinURL := url, Model := Steve\<rparr> in
              (case lookup skin ''metadata'' of
                 Some s' \<Rightarrow>
                   andThen (assertMap (Some s')) (\<lambda>skinMeta.
                     (case lookup skinMeta ''model'' of
                        Some m \<Rightarrow>
                          andThen (assertString (Some m)) (\<lambda>model.
                            if model = ''slim'' then Inr (props1\<lparr>Model := Alex\<rparr>)
                            else Inr props1)
                      | None \<Rightarrow> Inr props1))
               | None \<Rightarrow> Inr props1)))
        | None \<Rightarrow>
            andThen (assertString (lookup j ''profileId'')) (\<lambda>profileId.
            andThen (defaultModel profileId) (\<lambda>model.
              Inr (props\<lparr>Model := model\<rparr>))))"

definition capeStep :: "jmap \<Rightarrow> Properties \<Rightarrow> panic + Properties" where
  "capeStep ts props2 =
          (case lookup ts ''CAPE'' of
             Some c \<Rightarrow>
               andThen (assertMap (Some c)) (\<lambda>cape.
               andThen (assertString (lookup cape ''url'')) (\<lambda>url.
                 Inr (props2\<lparr>CapeURL := url\<rparr>)))
           | None \<Rightarrow> Inr props2)"

text \<open>
  Three documents: a cape and no skin, a skin marked slim, and a skin with no metadata.
\<close>

definition capeOnlyDocument :: jmap where
  "capeOnlyDocument =
     [(''profileId'', JString ''00000001000000000000000000000000''),
      (''textures'', JObject [(''CAPE'', JObject [(''url'', JString ''http://textures/cape'')])])]"

definition slimDocument :: jmap where
  "slimDocument =
     [(''profileId'', JString ''00000000000000000000000000000000''),
      (''textures'', JObject
         [(''SKIN'', JObject [(''url'', JString ''http://textures/skin''),
                             (''metadata'', JObject [(''model'', JString ''slim'')])])])]"

definition plainDocument :: jmap where
  "plainDocument =
     [(''profileId'', JString ''00000001000000000000000000000000''),
      (''textures'', JObject [(''SKIN'', JObject [(''url'', JString ''http://textures/skin'')])])]"

subsection \<open>Demo accounts\<close>




section \<open>Basic lemmas\<close>

lemma andThen_Inl [simp]: "andThen (Inl p) f = Inl p"
  by (simp add: andThen_def)

lemma andThen_Inr [simp]: "andThen (Inr v) f = f v"
  by (simp add: andThen_def)

section \<open>The name-history reconstructor: proofs\<close>

subsection \<open>Instants\<close>

lemma quo_nonneg: "0 \<le> a \<Longrightarrow> 0 < b \<Longrightarrow> quo a b = a div b"
  by (cases "a = 0") (simp_all add: quo_def)

lemma quo_neg: "a < 0 \<Longrightarrow> 0 < b \<Longrightarrow> quo a b = - ((- a) div b)"
  by (simp add: quo_def)

lemma Unix_small_neg:
  assumes "- 1000000000 < ns" and "ns < 0"
  shows "Unix s ns = \<lparr>sec = s - 1, nsec = ns + 1000000000\<rparr>"
proof -
  have "\<bar>ns\<bar> div 1000000000 = 0" using assms by simp
  then have "quo ns 1000000000 = 0" by (simp add: quo_def)
  then show ?thesis using assms by (simp add: Unix_def Let_def)
qed

text \<open>
  \<open>msToTime ms\<close> is the instant \<open>ms\<close> milliseconds after the epoch, also for a negative
  \<open>ms\<close>, where the truncating division leaves a negative nanosecond count to \<open>Unix\<close>.
\<close>

lemma msToTime_floor: "msToTime ms = \<lparr>sec = ms div 1000, nsec = (ms mod 1000) * 1000000\<rparr>"
proof (cases "0 \<le> ms")
  case True
  have "ms - ms div 1000 * 1000 = ms mod 1000" by (simp add: minus_div_mult_eq_mod)
  moreover have "0 \<le> ms mod 1000" "ms mod 1000 < 1000" by simp_all
  ultimately show ?thesis using True
    by (simp add: msToTime_def quo_nonneg Unix_def Let_def)
next
  case False
  then have neg: "ms < 0" by simp
  define q where "q = (- ms) div 1000"
  define r where "r = (- ms) mod 1000"
  have ms: "ms = - (q * 1000 + r)" by (simp add: q_def r_def)
  have r: "0 \<le> r" "r < 1000" by (simp_all add: r_def)
  show ?thesis
  proof (cases "r = 0")
    case True
    then have "ms = (- q) * 1000" using ms by simp
    then have "ms div 1000 = - q" "ms mod 1000 = 0" by simp_all
    then show ?thesis using neg True ms
      by (simp add: msToTime_def quo_neg Unix_def Let_def q_def [symmetric])
  next
    case False
    have eq: "ms = (- q - 1) * 1000 + (1000 - r)" using ms by (simp add: algebra_simps)
    have d: "ms div 1000 = - q - 1"
      by (rule int_div_pos_eq [where r = "1000 - r"]) (use r False eq in simp_all)
    have m: "ms mod 1000 = 1000 - r"
      by (rule int_mod_pos_eq [where q = "- q - 1"]) (use r False eq in simp_all)
    have qq: "quo ms 1000 = - q" using neg by (simp add: quo_neg q_def)
    have "ms - (- q) * 1000 = - r" using ms by simp
    then have ns: "(ms - quo ms 1000 * 1000) * 1000000 = - r * 1000000" by (simp add: qq)
    have "Unix (- q) (- r * 1000000) = \<lparr>sec = - q - 1, nsec = - r * 1000000 + 1000000000\<rparr>"
      by (rule Unix_small_neg) (use r False in simp_all)
    moreover have "msToTime ms = Unix (- q) (- r * 1000000)"
      by (simp only: msToTime_def Let_def ns) (simp only: qq)
    ultimately show ?thesis
      by (simp add: d m)
  qed
qed

lemma msToTime_millis: "sec (msToTime ms) * 1000 + nsec (msToTime ms) div 1000000 = ms"
  by (simp add: msToTime_floor)

lemma msToTime_inj: "msToTime a = msToTime b \<Longrightarrow> a = b"
  by (metis msToTime_millis)

subsection \<open>The loop\<close>

lemma nameOf_SomeD:
  "nameOf v \<noteq> None \<Longrightarrow>
     \<exists>m s. v = JObject m \<and> lookup m ''name'' = Some (JString s) \<and> nameOf v = Some s"
  by (cases v) (auto split: option.splits json.splits)

lemma update_after_replicate:
  "(replicate n z @ rest)[n := x] = replicate n z @ rest[0 := x]"
  by (simp add: list_update_append)

lemma nth_after_replicate: "rest \<noteq> [] \<Longrightarrow> (replicate n z @ rest) ! n = rest ! 0"
  by (simp add: nth_append)

lemma replicate_Suc_append: "replicate (Suc n) z @ rest = replicate n z @ z # rest"
  by (induction n) auto

lemma update_last_replicate:
  "(replicate (Suc n) z @ rest)[n := x] = replicate n z @ x # rest"
  by (simp only: replicate_Suc_append) (simp add: list_update_append)

lemma nth_last_replicate: "(replicate (Suc n) z @ rest) ! n = z"
  by (simp only: replicate_Suc_append) (simp add: nth_append)

lemma buildHistoryLoop_unfold:
  assumes "lookup m ''name'' = Some (JString s)"
  shows "buildHistoryLoop i (JObject m # vs) hist h =
           andThen (untilStep i m hist h) (\<lambda>hist1.
             if i = length hist1 then Inr (s, hist1)
             else andThen (setName hist1 h s) (\<lambda>hist2. buildHistoryLoop (i + 1) vs hist2 (h - 1)))"
  by (simp add: assms untilStep_def split del: if_split cong: if_cong)

lemma untilStep_closeHead:
  assumes "length rest = i"
    and "0 < i \<longrightarrow> (case lookup m ''changedToAt'' of None \<Rightarrow> True | Some (JNumber n) \<Rightarrow> True | Some _ \<Rightarrow> False)"
  shows "untilStep i m (replicate n zeroPastName @ rest) (int n - 1)
         = Inr (replicate n zeroPastName @ closeHead (JObject m) rest)"
proof (cases "lookup m ''changedToAt'' \<noteq> None \<and> 0 < i")
  case False
  then show ?thesis using assms
    by (cases rest) (auto simp: closeHead_def untilStep_def)
next
  case True
  then obtain ms where ms: "lookup m ''changedToAt'' = Some (JNumber ms)"
    using assms(2) by (auto split: option.splits json.splits)
  from True assms(1) obtain r rs where rest: "rest = r # rs" by (cases rest) auto
  show ?thesis using True
    by (simp add: untilStep_def ms rest setUntil_def closeHead_def update_after_replicate nth_append)
qed

lemma length_closeHead: "length (closeHead v rest) = length rest"
  by (cases rest) (auto simp: closeHead_def)

lemma buildHistoryLoop_correct:
  assumes "vs \<noteq> []" and "length rest = i"
    and "nameOf (hd vs) \<noteq> None" and "0 < i \<longrightarrow> wellFormedEvent (hd vs)"
    and "list_all wellFormedEvent (tl vs)"
  shows "buildHistoryLoop i vs (replicate (length vs - 1) zeroPastName @ rest) (int (length vs) - 2)
         = Inr (the (nameOf (last vs)), pastNames vs @ closeHead (hd vs) rest)"
  using assms
proof (induction vs arbitrary: i rest)
  case Nil
  then show ?case by simp
next
  case (Cons v vs)
  from Cons.prems(3) obtain m s where v: "v = JObject m" and nm: "lookup m ''name'' = Some (JString s)"
    and nv: "nameOf v = Some s"
    using nameOf_SomeD by fastforce
  have cta: "0 < i \<longrightarrow> (case lookup m ''changedToAt'' of None \<Rightarrow> True | Some (JNumber n) \<Rightarrow> True | Some _ \<Rightarrow> False)"
    using Cons.prems(4) v by (simp add: wellFormedEvent_def)
  let ?rest = "closeHead v rest"
  have step: "untilStep i m (replicate (length vs) zeroPastName @ rest) (int (length vs) - 1)
              = Inr (replicate (length vs) zeroPastName @ ?rest)"
    unfolding v by (rule untilStep_closeHead [OF Cons.prems(2) cta])
  have len: "length ?rest = i"
    using Cons.prems(2) by (simp add: length_closeHead)
  have unfold: "buildHistoryLoop i (v # vs) (replicate (length vs) zeroPastName @ rest) (int (length vs) - 1)
      = (if length vs = 0 then Inr (s, replicate (length vs) zeroPastName @ ?rest)
         else andThen (setName (replicate (length vs) zeroPastName @ ?rest) (int (length vs) - 1) s)
                (\<lambda>hist2. buildHistoryLoop (i + 1) vs hist2 (int (length vs) - 1 - 1)))"
    unfolding v buildHistoryLoop_unfold [OF nm] step [unfolded v]
    by (simp add: len [unfolded v])
  show ?case
  proof (cases vs)
    case Nil
    show ?thesis using unfold by (simp add: Nil nv pastNames_def)
  next
    case (Cons w ws)
    let ?n = "length ws"
    let ?e = "zeroPastName\<lparr>Name := s\<rparr>"
    have wfw: "wellFormedEvent w" using Cons.prems(5) Cons by simp
    have IH: "buildHistoryLoop (Suc i) vs (replicate (length vs - 1) zeroPastName @ (?e # ?rest))
                (int (length vs) - 2)
              = Inr (the (nameOf (last vs)), pastNames vs @ closeHead (hd vs) (?e # ?rest))"
    proof (rule Cons.IH)
      show "vs \<noteq> []" by (simp add: Cons)
      show "length (?e # ?rest) = Suc i" by (simp add: len)
      show "nameOf (hd vs) \<noteq> None" using wfw by (simp add: Cons wellFormedEvent_def)
      show "0 < Suc i \<longrightarrow> wellFormedEvent (hd vs)" using wfw by (simp add: Cons)
      show "list_all wellFormedEvent (tl vs)" using Cons.prems(5) by (simp add: Cons)
    qed
    have names: "setName (replicate (Suc ?n) zeroPastName @ ?rest) (int (Suc ?n) - 1) s
                 = Inr (replicate ?n zeroPastName @ ?e # ?rest)"
    proof -
      have "int (Suc ?n) - 1 = int ?n" by simp
      then show ?thesis
        unfolding setName_def
        by (simp only: nat_int update_last_replicate nth_last_replicate) simp
    qed
    have "buildHistoryLoop i (v # vs) (replicate (length vs) zeroPastName @ rest) (int (length vs) - 1)
          = buildHistoryLoop (Suc i) vs (replicate ?n zeroPastName @ ?e # ?rest) (int ?n - 1)"
      unfolding unfold using names by (simp add: Cons)
    also have "\<dots> = Inr (the (nameOf (last vs)), pastNames vs @ closeHead (hd vs) (?e # ?rest))"
      using IH by (simp add: Cons)
    also have "pastNames vs @ closeHead (hd vs) (?e # ?rest) = pastNames (v # vs) @ ?rest"
      using wfw
      by (auto simp: Cons pastNames_def closeHead_def nv zeroPastName_def wellFormedEvent_def
               split: option.splits json.splits)
    finally show ?thesis by (simp add: Cons)
  qed
qed

lemma closeHead_Nil: "closeHead v [] = []"
  by (simp add: closeHead_def)

lemma buildHistory_pastNames:
  assumes "wellFormedEvents arr" and "arr \<noteq> []"
  shows "buildHistory arr = Inr (the (nameOf (last arr)), Some (pastNames arr))"
proof -
  from assms obtain v vs where arr: "arr = v # vs" by (cases arr) auto
  have "buildHistoryLoop 0 arr (replicate (length arr - 1) zeroPastName @ []) (int (length arr) - 2)
        = Inr (the (nameOf (last arr)), pastNames arr @ closeHead (hd arr) [])"
    by (rule buildHistoryLoop_correct) (use assms arr in \<open>simp_all add: wellFormedEvents_def\<close>)
  moreover have "int (length (replicate (length arr - 1) zeroPastName)) - 1 = int (length arr) - 2"
    using arr by simp
  ultimately show ?thesis
    using assms(2) by (simp add: buildHistory_def Let_def closeHead_Nil)
qed

lemma length_pastNames: "length (pastNames vs) = length vs - 1"
  by (simp add: pastNames_def)

lemma nth_pastNames:
  assumes "k < length vs - 1"
  shows "pastNames vs ! k =
           \<lparr>Name = the (nameOf (vs ! (length vs - 2 - k))),
            Until = instantOf (changedToAt (vs ! (length vs - 1 - k)))\<rparr>"
proof -
  let ?j = "length vs - 2 - k"
  have j: "?j < length vs - 1" "Suc ?j = length vs - 1 - k" using assms by auto
  have "pastNames vs ! k =
          (map (\<lambda>(a, b). \<lparr>Name = the (nameOf a), Until = instantOf (changedToAt b)\<rparr>) (zip vs (tl vs)))
            ! (length vs - 1 - Suc k)"
    unfolding pastNames_def using assms by (simp add: rev_nth)
  also have "length vs - 1 - Suc k = ?j" by simp
  finally show ?thesis using j by (simp add: nth_tl)
qed

lemma wellFormedEvents_nth:
  assumes "wellFormedEvents arr" and "j < length arr"
  shows "nameOf (arr ! j) \<noteq> None"
proof (cases arr)
  case Nil
  then show ?thesis using assms by simp
next
  case (Cons v vs)
  show ?thesis
  proof (cases j)
    case 0
    then show ?thesis using assms Cons by (simp add: wellFormedEvents_def)
  next
    case (Suc j')
    then have "j' < length vs" using assms(2) Cons by simp
    then have "wellFormedEvent (vs ! j')"
      using assms(1) Cons by (simp add: wellFormedEvents_def list_all_length)
    then show ?thesis by (simp add: Cons Suc wellFormedEvent_def)
  qed
qed

subsection \<open>Current name and order of the history\<close>

text \<open>
  Claim C1. On a well-formed event list of length \<open>n \<ge> 1\<close>, \<open>buildHistory\<close> returns the
  name of the last event as the current name and a history of exactly \<open>n - 1\<close> entries,
  most recent first: entry \<open>k\<close> carries the name of event \<open>n - 2 - k\<close>, so entry 0 is
  the second-to-last event and the last entry is the first event. On the empty list the
  current name is the empty string and the history is empty.
\<close>

theorem buildHistory_current_name_and_order:
  assumes "wellFormedEvents arr"
  shows "\<exists>name hist. buildHistory arr = Inr (name, hist) \<and>
           (if arr = [] then name = [] \<and> elems hist = []
            else nameOf (last arr) = Some name \<and>
                 length (elems hist) = length arr - 1 \<and>
                 (\<forall>k<length arr - 1.
                    nameOf (arr ! (length arr - 2 - k)) = Some (Name (elems hist ! k))))"
proof (cases "arr = []")
  case True
  then show ?thesis by (simp add: buildHistory_def elems_def)
next
  case False
  have res: "buildHistory arr = Inr (the (nameOf (last arr)), Some (pastNames arr))"
    using assms False by (rule buildHistory_pastNames)
  have "nameOf (arr ! (length arr - 1)) \<noteq> None"
    using assms False by (intro wellFormedEvents_nth) simp_all
  then have last: "nameOf (last arr) = Some (the (nameOf (last arr)))"
    using False by (simp add: last_conv_nth)
  have names: "nameOf (arr ! (length arr - 2 - k)) = Some (Name (pastNames arr ! k))"
    if "k < length arr - 1" for k
  proof -
    have "nameOf (arr ! (length arr - 2 - k)) \<noteq> None"
      using assms that by (intro wellFormedEvents_nth) simp_all
    then show ?thesis using that by (auto simp: nth_pastNames)
  qed
  show ?thesis
    using False last names by (simp add: res elems_def length_pastNames)
qed

theorem buildHistory_current_name_and_order_witness:
  "wellFormedEvents exampleEvents \<and>
   (\<exists>hist. buildHistory exampleEvents = Inr (''C'', hist) \<and>
      map Name (elems hist) = [''B'', ''A''])"
proof -
  have wf: "wellFormedEvents exampleEvents"
    by (simp add: exampleEvents_def wellFormedEvents_def wellFormedEvent_def lookup_def)
  from buildHistory_current_name_and_order [OF wf]
  obtain name hist where r: "buildHistory exampleEvents = Inr (name, hist)"
    and n: "nameOf (last exampleEvents) = Some name"
    and l: "length (elems hist) = length exampleEvents - 1"
    and k: "\<forall>k<length exampleEvents - 1.
              nameOf (exampleEvents ! (length exampleEvents - 2 - k)) = Some (Name (elems hist ! k))"
    by (auto simp: exampleEvents_def)
  have "name = ''C''" using n by (simp add: exampleEvents_def lookup_def)
  moreover have "length (elems hist) = 2" using l by (simp add: exampleEvents_def)
  moreover have "Name (elems hist ! 0) = ''B''" using k [rule_format, of 0]
    by (simp add: exampleEvents_def lookup_def)
  moreover have "Name (elems hist ! 1) = ''A''" using k [rule_format, of 1]
    by (simp add: exampleEvents_def lookup_def)
  ultimately have "map Name (elems hist) = [''B'', ''A'']"
    by (cases "elems hist"; cases "tl (elems hist)") auto
  with r wf \<open>name = ''C''\<close> show ?thesis by auto
qed

lemma pastNames_first:
  "nameOf v' = nameOf v \<Longrightarrow> pastNames (v' # vs) = pastNames (v # vs)"
  by (cases vs) (simp_all add: pastNames_def)

lemma buildHistory_first_event:
  assumes "wellFormedEvents (v # vs)" and "nameOf v' = nameOf v"
  shows "buildHistory (v' # vs) = buildHistory (v # vs)"
proof -
  have wf': "wellFormedEvents (v' # vs)"
    using assms by (simp add: wellFormedEvents_def)
  have "the (nameOf (last (v' # vs))) = the (nameOf (last (v # vs)))"
    using assms(2) by simp
  then show ?thesis
    using buildHistory_pastNames [OF assms(1)] buildHistory_pastNames [OF wf']
      pastNames_first [OF assms(2)]
    by simp
qed

subsection \<open>The valid-until instants\<close>

text \<open>
  Claim C2. On a well-formed, non-empty event list in which every event after the first
  carries a changed-to instant, every history entry (so every entry but the logically
  last one, too) has its \<open>Until\<close> set, and the instant it holds is the \<open>changedToAt\<close>
  value \<open>ms\<close> of the event that follows its own: \<open>ms div 1000\<close> whole seconds after the
  epoch and \<open>ms mod 1000\<close> milliseconds into the second (rounding down, also for a
  negative \<open>ms\<close>), so that seconds and nanoseconds give \<open>ms\<close> back. Entry \<open>k\<close> belongs to
  event \<open>n - 2 - k\<close> and is closed by event \<open>n - 1 - k\<close>. Of the first event nothing but
  the name is read, so a \<open>changedToAt\<close> it carries reaches no entry: replacing the first
  event by any event of the same name leaves the result as it is.
\<close>

theorem buildHistory_valid_until:
  assumes "wellFormedEvents arr" and "arr \<noteq> []" and "list_all carriesInstant (tl arr)"
  shows "\<exists>name hist. buildHistory arr = Inr (name, Some hist) \<and>
           length hist = length arr - 1 \<and>
           (\<forall>k<length arr - 1. \<exists>ms t.
              changedToAt (arr ! (length arr - 1 - k)) = Some (JNumber ms) \<and>
              Until (hist ! k) = Some t \<and>
              t = \<lparr>sec = ms div 1000, nsec = (ms mod 1000) * 1000000\<rparr> \<and>
              sec t * 1000 + nsec t div 1000000 = ms) \<and>
           (\<forall>v'. nameOf v' = nameOf (hd arr) \<longrightarrow> buildHistory (v' # tl arr) = buildHistory arr)"
proof -
  have res: "buildHistory arr = Inr (the (nameOf (last arr)), Some (pastNames arr))"
    using assms(1,2) by (rule buildHistory_pastNames)
  have until: "\<exists>ms t. changedToAt (arr ! (length arr - 1 - k)) = Some (JNumber ms) \<and>
                 Until (pastNames arr ! k) = Some t \<and>
                 t = \<lparr>sec = ms div 1000, nsec = (ms mod 1000) * 1000000\<rparr> \<and>
                 sec t * 1000 + nsec t div 1000000 = ms"
    if "k < length arr - 1" for k
  proof -
    let ?j = "length arr - 1 - k"
    have "0 < ?j" "?j < length arr" using that by auto
    then have j: "Suc (?j - 1) = ?j" "?j - 1 < length (tl arr)"
      by simp_all
    then have "tl arr ! (?j - 1) = arr ! ?j"
      by (simp only: nth_tl)
    moreover have "carriesInstant (tl arr ! (?j - 1))"
      using assms(3) j(2) by (simp only: list_all_length)
    ultimately have "carriesInstant (arr ! ?j)"
      by simp
    then obtain ms where ms: "changedToAt (arr ! ?j) = Some (JNumber ms)"
      by (auto simp: carriesInstant_def split: option.splits json.splits)
    then have "Until (pastNames arr ! k) = Some (msToTime ms)"
      using that by (simp add: nth_pastNames)
    moreover have "msToTime ms = \<lparr>sec = ms div 1000, nsec = (ms mod 1000) * 1000000\<rparr>"
      by (rule msToTime_floor)
    moreover have "sec (msToTime ms) * 1000 + nsec (msToTime ms) div 1000000 = ms"
      by (rule msToTime_millis)
    ultimately show ?thesis using ms by simp
  qed
  have first: "buildHistory (v' # tl arr) = buildHistory arr" if "nameOf v' = nameOf (hd arr)" for v'
  proof -
    from assms(2) have arr: "arr = hd arr # tl arr" by simp
    have "buildHistory (v' # tl arr) = buildHistory (hd arr # tl arr)"
      using assms(1) that by (intro buildHistory_first_event) (simp_all add: arr [symmetric])
    then show ?thesis by (simp add: arr [symmetric])
  qed
  show ?thesis
    using until first by (simp add: res length_pastNames)
qed

theorem buildHistory_valid_until_witness:
  "wellFormedEvents exampleEvents \<and> exampleEvents \<noteq> [] \<and>
   list_all carriesInstant (tl exampleEvents) \<and>
   (\<exists>name hist. buildHistory exampleEvents = Inr (name, Some hist) \<and>
      map Until hist = [Some \<lparr>sec = 2, nsec = 500000000\<rparr>, Some \<lparr>sec = 1, nsec = 0\<rparr>]) \<and>
   buildHistory (exampleFirstEvent # tl exampleEvents) = buildHistory exampleEvents"
proof -
  have wf: "wellFormedEvents exampleEvents"
    by (simp add: exampleEvents_def wellFormedEvents_def wellFormedEvent_def lookup_def)
  have ne: "exampleEvents \<noteq> []" by (simp add: exampleEvents_def)
  have ci: "list_all carriesInstant (tl exampleEvents)"
    by (simp add: exampleEvents_def carriesInstant_def lookup_def)
  from buildHistory_valid_until [OF wf ne ci]
  obtain name hist where r: "buildHistory exampleEvents = Inr (name, Some hist)"
    and l: "length hist = length exampleEvents - 1"
    and k: "\<forall>k<length exampleEvents - 1. \<exists>ms t.
              changedToAt (exampleEvents ! (length exampleEvents - 1 - k)) = Some (JNumber ms) \<and>
              Until (hist ! k) = Some t \<and>
              t = \<lparr>sec = ms div 1000, nsec = (ms mod 1000) * 1000000\<rparr> \<and>
              sec t * 1000 + nsec t div 1000000 = ms"
    and f: "\<forall>v'. nameOf v' = nameOf (hd exampleEvents) \<longrightarrow>
              buildHistory (v' # tl exampleEvents) = buildHistory exampleEvents"
    by blast
  have "length hist = 2" using l by (simp add: exampleEvents_def)
  moreover have "Until (hist ! 0) = Some \<lparr>sec = 2, nsec = 500000000\<rparr>"
    using k [rule_format, of 0] by (auto simp: exampleEvents_def lookup_def)
  moreover have "Until (hist ! 1) = Some \<lparr>sec = 1, nsec = 0\<rparr>"
    using k [rule_format, of 1] by (auto simp: exampleEvents_def lookup_def)
  ultimately have u: "map Until hist = [Some \<lparr>sec = 2, nsec = 500000000\<rparr>, Some \<lparr>sec = 1, nsec = 0\<rparr>]"
    by (cases hist; cases "tl hist") auto
  have "nameOf exampleFirstEvent = nameOf (hd exampleEvents)"
    by (simp add: exampleFirstEvent_def exampleEvents_def lookup_def)
  with f have "buildHistory (exampleFirstEvent # tl exampleEvents) = buildHistory exampleEvents"
    by blast
  with wf ne ci r u show ?thesis by simp
qed

section \<open>The default model selector: proofs\<close>

lemma unat_and_1: "unat (c AND 1) = unat c mod 2" for c :: "8 word"
  by (simp add: and_one_eq unat_mod)

lemma word_and_1_even: "(c AND 1 = 0) = even (unat c)" for c :: "8 word"
proof -
  have "(c AND 1 = 0) = (unat (c AND 1) = 0)" by (simp add: unat_eq_0)
  then show ?thesis by (simp add: unat_and_1 even_iff_mod_2_eq_zero)
qed

lemma word_and_1_odd: "(c AND 1 = 1) = odd (unat c)" for c :: "8 word"
proof -
  have "(c AND 1 = 1) = (unat (c AND 1) = unat (1 :: 8 word))" by (simp only: word_unat_eq_iff)
  then show ?thesis by (simp add: unat_and_1 odd_iff_mod_2_eq_one)
qed

lemma isEven_evenDigit: "lowerHex c \<Longrightarrow> isEven c = Inr (evenDigit c)"
  by (auto simp: lowerHex_def isEven_def evenDigit_def hexValue_def word_and_1_even word_and_1_odd
      word_le_nat_alt)

lemma isEven_lowerHex: "(\<exists>b. isEven c = Inr b) = lowerHex c"
  by (auto simp: lowerHex_def isEven_def)

lemma defaultModel_selectModel:
  assumes "32 \<le> length uuid"
    and "lowerHex (of_char (uuid ! 7))" and "lowerHex (of_char (uuid ! 15))"
    and "lowerHex (of_char (uuid ! 23))" and "lowerHex (of_char (uuid ! 31))"
  shows "defaultModel uuid = Inr (selectModel evenDigit uuid)"
proof -
  have "defaultModel uuid =
          (if (evenDigit (of_char (uuid ! 7)) \<noteq> evenDigit (of_char (uuid ! 23))) \<noteq>
              (evenDigit (of_char (uuid ! 15)) \<noteq> evenDigit (of_char (uuid ! 31)))
           then Inr Alex else Inr Steve)"
    using assms by (simp add: defaultModel_def byteAt_def isEven_evenDigit)
  also have "\<dots> = Inr (selectModel evenDigit uuid)"
    unfolding selectModel_def Let_def by (rule if_distrib [symmetric])
  finally show ?thesis .
qed

text \<open>
  Claim C3, as amended. On an identifier of 32 lower-case hexadecimal digits
  \<open>defaultModel\<close> returns Alex when \<open>X \<noteq> Y\<close> and Steve otherwise, where \<open>X\<close> compares
  the evenness of the digits at indices 7 and 23 and \<open>Y\<close> that of the digits at indices
  15 and 31; and \<open>isEven\<close> counts a digit as even exactly when the number it stands for
  is even, for the letters \<open>a\<close>..\<open>f\<close> (10 to 15) as for the decimal digits. The result
  is a function of the identifier alone.
\<close>

theorem defaultModel_digit_parity:
  assumes "length uuid = 32" and "list_all (\<lambda>c. lowerHex (of_char c)) uuid"
  shows "defaultModel uuid = Inr (selectModel evenDigit uuid) \<and>
         (\<forall>c. lowerHex c \<longrightarrow> isEven c = Inr (evenDigit c))"
proof -
  have "lowerHex (of_char (uuid ! i))" if "i < 32" for i
    using assms that by (simp add: list_all_length)
  then show ?thesis
    using assms(1) by (simp add: defaultModel_selectModel isEven_evenDigit)
qed

theorem defaultModel_digit_parity_witness:
  "length exampleUUID = 32 \<and> list_all (\<lambda>c. lowerHex (of_char c)) exampleUUID \<and>
   defaultModel exampleUUID = Inr Steve \<and> isEven 97 = Inr True \<and> isEven 98 = Inr False"
proof -
  have l: "length exampleUUID = 32" by (simp add: exampleUUID_def)
  have h: "list_all (\<lambda>c. lowerHex (of_char c)) exampleUUID"
    by (simp add: exampleUUID_def lowerHex_def)
  have "selectModel evenDigit exampleUUID = Steve"
    by (simp add: selectModel_def exampleUUID_def evenDigit_def hexValue_def)
  moreover have "lowerHex 97" "lowerHex 98" "evenDigit 97" "\<not> evenDigit 98"
    by (simp_all add: lowerHex_def evenDigit_def hexValue_def)
  ultimately show ?thesis
    using defaultModel_digit_parity [OF l h] l h by simp
qed

text \<open>
  The claim as stated fails on the letters: \<open>'a'\<close> stands for 10, an even number, and
  \<open>isEven\<close> answers true for it, where the specification's wording counts a letter as
  even when its value is odd. The selection differs accordingly on an identifier with
  one letter among the four digits read.
\<close>

theorem defaultModel_spec_parity_counterexample:
  "isEven 97 = Inr True \<and> hexValue 97 = 10 \<and> evenDigitSpec 97 = False \<and>
   defaultModel exampleUUID = Inr Steve \<and> selectModel evenDigitSpec exampleUUID = Alex"
  by (simp add: isEven_def hexValue_def evenDigitSpec_def defaultModel_def byteAt_def
      exampleUUID_def selectModel_def)

text \<open>
  Claim C10. \<open>defaultModel\<close> depends on the bytes at indices 7, 15, 23 and 31 only: two
  identifiers of length at least 32 that agree there, on lower-case hexadecimal digits,
  get the same body model.
\<close>

theorem defaultModel_four_positions:
  assumes "32 \<le> length u" and "32 \<le> length v"
    and "u ! 7 = v ! 7" and "u ! 15 = v ! 15" and "u ! 23 = v ! 23" and "u ! 31 = v ! 31"
    and "lowerHex (of_char (u ! 7))" and "lowerHex (of_char (u ! 15))"
    and "lowerHex (of_char (u ! 23))" and "lowerHex (of_char (u ! 31))"
  shows "\<exists>m. defaultModel u = Inr m \<and> defaultModel v = Inr m"
proof -
  have "defaultModel u = Inr (selectModel evenDigit u)"
    using assms by (intro defaultModel_selectModel)
  moreover have "defaultModel v = Inr (selectModel evenDigit v)"
    using assms by (intro defaultModel_selectModel) simp_all
  moreover have "selectModel evenDigit v = selectModel evenDigit u"
    using assms by (simp add: selectModel_def)
  ultimately show ?thesis by simp
qed

theorem defaultModel_four_positions_witness:
  "32 \<le> length exampleUUID2 \<and> 32 \<le> length exampleUUID3 \<and>
   exampleUUID2 \<noteq> exampleUUID3 \<and>
   (\<exists>m. defaultModel exampleUUID2 = Inr m \<and> defaultModel exampleUUID3 = Inr m)"
proof -
  have "\<exists>m. defaultModel exampleUUID2 = Inr m \<and> defaultModel exampleUUID3 = Inr m"
    by (rule defaultModel_four_positions)
      (simp_all add: exampleUUID2_def exampleUUID3_def lowerHex_def)
  then show ?thesis by (simp add: exampleUUID2_def exampleUUID3_def)
qed

section \<open>The error classifier: proofs\<close>

text \<open>
  Claim C5, as amended. \<open>transformError\<close> maps a failed request of status 204 to
  \<open>ErrNoSuchProfile\<close>; a failed request of any other status that carries the error code
  \<open>TooManyRequestsException\<close> to \<open>ErrTooManyRequests\<close>; and returns every other error
  unchanged.
\<close>

theorem transformError_classifies:
  "(\<forall>e. UnwrapErrFailedRequest d src = Some e \<and> StatusCode e = 204
         \<longrightarrow> transformError d src = ErrNoSuchProfile) \<and>
   (\<forall>e. UnwrapErrFailedRequest d src = Some e \<and> StatusCode e \<noteq> 204 \<and>
         ErrorCode e = ''TooManyRequestsException''
         \<longrightarrow> transformError d src = ErrTooManyRequests) \<and>
   ((\<forall>e. UnwrapErrFailedRequest d src = Some e
          \<longrightarrow> StatusCode e \<noteq> 204 \<and> ErrorCode e \<noteq> ''TooManyRequestsException'')
      \<longrightarrow> transformError d src = src)"
  by (auto simp: transformError_def split: option.splits)

theorem transformError_classifies_witness:
  "transformError noTransport (FailedRequest \<lparr>StatusCode = 204, ErrorCode = []\<rparr>) = ErrNoSuchProfile \<and>
   transformError noTransport (FailedRequest \<lparr>StatusCode = 429, ErrorCode = ''TooManyRequestsException''\<rparr>)
     = ErrTooManyRequests \<and>
   transformError noTransport (FailedRequest \<lparr>StatusCode = 200, ErrorCode = ''TooManyRequestsException''\<rparr>)
     = ErrTooManyRequests \<and>
   transformError noTransport (FailedRequest \<lparr>StatusCode = 500, ErrorCode = ''Oops''\<rparr>)
     = FailedRequest \<lparr>StatusCode = 500, ErrorCode = ''Oops''\<rparr> \<and>
   transformError noTransport (OtherError ''context canceled'') = OtherError ''context canceled''"
proof -
  have u: "UnwrapErrFailedRequest noTransport (FailedRequest r) = Some r" for r
    by (simp add: noTransport_def exampleDeps_def exampleUnwrap_def)
  have n: "UnwrapErrFailedRequest noTransport (OtherError s) = None" for s
    by (simp add: noTransport_def exampleDeps_def exampleUnwrap_def)
  show ?thesis
    using transformError_classifies [of noTransport "FailedRequest \<lparr>StatusCode = 204, ErrorCode = []\<rparr>"]
      transformError_classifies [of noTransport "FailedRequest \<lparr>StatusCode = 429, ErrorCode = ''TooManyRequestsException''\<rparr>"]
      transformError_classifies [of noTransport "FailedRequest \<lparr>StatusCode = 200, ErrorCode = ''TooManyRequestsException''\<rparr>"]
      transformError_classifies [of noTransport "FailedRequest \<lparr>StatusCode = 500, ErrorCode = ''Oops''\<rparr>"]
      transformError_classifies [of noTransport "OtherError ''context canceled''"]
    by (simp add: u n)
qed

text \<open>
  The claim as stated fails on a failed request of status 204 that carries the
  rate-exhaustion code: the status is tested first, and the result is
  \<open>ErrNoSuchProfile\<close>.
\<close>

theorem transformError_204_counterexample:
  "UnwrapErrFailedRequest noTransport
     (FailedRequest \<lparr>StatusCode = 204, ErrorCode = ''TooManyRequestsException''\<rparr>)
     = Some \<lparr>StatusCode = 204, ErrorCode = ''TooManyRequestsException''\<rparr> \<and>
   transformError noTransport
     (FailedRequest \<lparr>StatusCode = 204, ErrorCode = ''TooManyRequestsException''\<rparr>)
     = ErrNoSuchProfile \<and>
   transformError noTransport
     (FailedRequest \<lparr>StatusCode = 204, ErrorCode = ''TooManyRequestsException''\<rparr>)
     \<noteq> ErrTooManyRequests"
  by (simp add: transformError_def noTransport_def exampleDeps_def exampleUnwrap_def)

section \<open>The profile assembler: proofs\<close>

lemma andThen_eq_Inr:
  "(andThen x f = Inr r) = (\<exists>v. x = Inr v \<and> f v = Inr r)"
  by (cases x) simp_all



text \<open>What a normal return of the loop says about the last element.\<close>

lemma setUntil_length: "setUntil hist k t = Inr hist' \<Longrightarrow> length hist' = length hist"
  by (auto simp: setUntil_def split: if_splits)

lemma setName_length: "setName hist k s = Inr hist' \<Longrightarrow> length hist' = length hist"
  by (auto simp: setName_def split: if_splits)

lemma untilStep_length: "untilStep i m hist h = Inr hist' \<Longrightarrow> length hist' = length hist"
  by (auto simp: untilStep_def andThen_eq_Inr setUntil_length split: if_splits)

lemma assertString_Inr: "(assertString x = Inr s) = (x = Some (JString s))"
  by (cases x rule: assertString.cases) auto

lemma assertMap_Inr: "(assertMap x = Inr m) = (x = Some (JObject m))"
  by (cases x rule: assertMap.cases) auto

lemma assertArray_Inr: "(assertArray x = Inr a) = (x = Some (JArray a))"
  by (cases x rule: assertArray.cases) auto

lemma buildHistoryLoop_Cons:
  "buildHistoryLoop i (v # vs) hist h =
     andThen (assertMap (Some v)) (\<lambda>m.
     andThen (untilStep i m hist h) (\<lambda>hist1.
     andThen (assertString (lookup m ''name'')) (\<lambda>s.
       if i = length hist1 then Inr (s, hist1)
       else andThen (setName hist1 h s) (\<lambda>hist2. buildHistoryLoop (i + 1) vs hist2 (h - 1)))))"
proof -
  have "(if c then andThen a f else andThen a g) = andThen a (\<lambda>s. if c then f s else g s)"
    for c and a :: "panic + string" and f g :: "string \<Rightarrow> panic + (string \<times> PastName list)"
    by simp
  then show ?thesis
    by (simp add: untilStep_def split del: if_split cong: if_cong)
qed

lemma buildHistoryLoop_returns_last:
  assumes "buildHistoryLoop i vs hist h = Inr (name, hist')"
    and "i + length vs = length hist + 1" and "vs \<noteq> []"
  shows "nameOf (last vs) = Some name"
  using assms
proof (induction vs arbitrary: i hist h)
  case Nil
  then show ?case by simp
next
  case (Cons v vs)
  from Cons.prems(1) obtain m hist1 s where v: "v = JObject m"
    and u: "untilStep i m hist h = Inr hist1"
    and s: "lookup m ''name'' = Some (JString s)"
    and rest: "(if i = length hist1 then Inr (s, hist1)
                else andThen (setName hist1 h s) (\<lambda>hist2. buildHistoryLoop (i + 1) vs hist2 (h - 1)))
               = Inr (name, hist')"
    unfolding buildHistoryLoop_Cons andThen_eq_Inr assertMap_Inr assertString_Inr
    by auto
  have len: "length hist1 = length hist" using u by (rule untilStep_length)
  show ?case
  proof (cases "i = length hist1")
    case True
    then have "vs = []" using Cons.prems(2) len by simp
    moreover have "name = s" using rest True by simp
    ultimately show ?thesis by (simp add: v s)
  next
    case False
    then obtain hist2 where n: "setName hist1 h s = Inr hist2"
      and r: "buildHistoryLoop (i + 1) vs hist2 (h - 1) = Inr (name, hist')"
      using rest by (auto simp: andThen_eq_Inr)
    have len2: "length hist2 = length hist" using n len by (simp add: setName_length)
    have ne: "vs \<noteq> []" using False Cons.prems(2) len by auto
    have "nameOf (last vs) = Some name"
      using r _ ne by (rule Cons.IH) (use Cons.prems(2) len2 in simp)
    then show ?thesis using ne by simp
  qed
qed

lemma buildHistory_returns_last:
  assumes "buildHistory arr = Inr (name, hist)"
  shows "if arr = [] then name = [] \<and> hist = None else nameOf (last arr) = Some name"
proof (cases "arr = []")
  case True
  then show ?thesis using assms by (simp add: buildHistory_def)
next
  case False
  then obtain hist' where
    "buildHistoryLoop 0 arr (replicate (length arr - 1) zeroPastName) (int (length arr - 1) - 1)
       = Inr (name, hist')"
    using assms by (auto simp: buildHistory_def Let_def andThen_eq_Inr)
  then have "nameOf (last arr) = Some name"
    by (rule buildHistoryLoop_returns_last) (use False in \<open>simp_all add: Suc_leI\<close>)
  then show ?thesis using False by simp
qed

text \<open>
  Claim C9, as amended. A profile that \<open>buildProfile\<close> returns carries the strings under
  \<open>"id"\<close> and \<open>"name"\<close> of the document as identifier and current name. A profile that
  \<open>LoadWithNameHistory\<close> returns carries the identifier asked for, which is not empty,
  and as current name the name of the last event of the answer, or the empty string when
  the answer holds no event.
\<close>

theorem profile_identifier_and_name:
  "(buildProfile m demoErr = Inr (Some p, err)
      \<longrightarrow> lookup m ''id'' = Some (JString (ID p)) \<and>
          lookup m ''name'' = Some (JString (ProfileName p))) \<and>
   (LoadWithNameHistory d i = (Some p', err')
      \<longrightarrow> i \<noteq> [] \<and> ID p' = i \<and>
          (\<exists>arr. FetchJSON d (loadWithNameHistoryURL i) = Inr (JArray arr) \<and>
             (if arr = [] then ProfileName p' = []
              else nameOf (last arr) = Some (ProfileName p'))))"
proof (intro conjI impI)
  assume "buildProfile m demoErr = Inr (Some p, err)"
  then show "lookup m ''id'' = Some (JString (ID p))"
    and "lookup m ''name'' = Some (JString (ProfileName p))"
    by (auto simp: buildProfile_def andThen_eq_Inr assertString_Inr Let_def split: if_splits)
next
  assume a: "LoadWithNameHistory d i = (Some p', err')"
  then show ne: "i \<noteq> []" by (auto simp: LoadWithNameHistory_def)
  from a ne obtain j where f: "FetchJSON d (loadWithNameHistoryURL i) = Inr j"
    by (auto simp: LoadWithNameHistory_def split: sum.splits)
  from a ne f obtain name hist where
    b: "andThen (assertArray (Some j)) buildHistory = Inr (name, hist)"
    and p': "p' = \<lparr>ID = i, ProfileName = name, NameHistory = hist, Properties = None\<rparr>"
    by (auto simp: LoadWithNameHistory_def split: sum.splits)
  from b obtain arr where j: "j = JArray arr" and h: "buildHistory arr = Inr (name, hist)"
    by (auto simp: andThen_eq_Inr assertArray_Inr)
  show "ID p' = i" by (simp add: p')
  show "\<exists>arr. FetchJSON d (loadWithNameHistoryURL i) = Inr (JArray arr) \<and>
          (if arr = [] then ProfileName p' = [] else nameOf (last arr) = Some (ProfileName p'))"
    using buildHistory_returns_last [OF h] f j by (auto simp: p')
qed

text \<open>
  The claim as stated fails: no operation checks that a name or an identifier read from
  a document is not empty, and an empty list of events gives the empty current name.
\<close>

theorem profile_nonempty_counterexample:
  "buildProfile blankDocument ErrNoSuchProfile
     = Inr (Some \<lparr>ID = [], ProfileName = [], NameHistory = None, Properties = None\<rparr>, None) \<and>
   LoadWithNameHistory emptyHistoryDeps ''069a79f444e94726a5befca90e38aaf5''
     = (Some \<lparr>ID = ''069a79f444e94726a5befca90e38aaf5'', ProfileName = [],
               NameHistory = None, Properties = None\<rparr>, None)"
  by (simp add: buildProfile_def blankDocument_def lookup_def flagSet_def
      LoadWithNameHistory_def emptyHistoryDeps_def exampleDeps_def buildHistory_def)

theorem profile_identifier_and_name_witness:
  "buildProfile [(''id'', JString ''4566e69f''), (''name'', JString ''Thinkofdeath'')] ErrNoSuchProfile
     = Inr (Some \<lparr>ID = ''4566e69f'', ProfileName = ''Thinkofdeath'', NameHistory = None,
                  Properties = None\<rparr>, None) \<and>
   LoadWithNameHistory (exampleDeps (\<lambda>_. Inr (JArray exampleEvents)) (\<lambda>_. Inr (JArray []))) ''4566e69f''
     = (Some \<lparr>ID = ''4566e69f'', ProfileName = ''C'', NameHistory = Some (pastNames exampleEvents),
               Properties = None\<rparr>, None) \<and>
   lookup [(''id'', JString ''4566e69f''), (''name'', JString ''Thinkofdeath'')] ''id''
     = Some (JString ''4566e69f'') \<and>
   nameOf (last exampleEvents) = Some ''C''"
proof -
  let ?m = "[(''id'', JString ''4566e69f''), (''name'', JString ''Thinkofdeath'')]"
  let ?p = "\<lparr>ID = ''4566e69f'', ProfileName = ''Thinkofdeath'', NameHistory = None, Properties = None\<rparr>"
  let ?d = "exampleDeps (\<lambda>_. Inr (JArray exampleEvents)) (\<lambda>_. Inr (JArray []))"
  let ?p' = "\<lparr>ID = ''4566e69f'', ProfileName = ''C'', NameHistory = Some (pastNames exampleEvents),
              Properties = None\<rparr>"
  have b: "buildProfile ?m ErrNoSuchProfile = Inr (Some ?p, None)"
    by (simp add: buildProfile_def lookup_def flagSet_def)
  have wf: "wellFormedEvents exampleEvents"
    by (simp add: exampleEvents_def wellFormedEvents_def wellFormedEvent_def lookup_def)
  have "the (nameOf (last exampleEvents)) = ''C''"
    by (simp add: exampleEvents_def lookup_def)
  then have l: "LoadWithNameHistory ?d ''4566e69f'' = (Some ?p', None)"
    using buildHistory_pastNames [OF wf]
    by (simp add: LoadWithNameHistory_def exampleDeps_def exampleEvents_def)
  show ?thesis
    using profile_identifier_and_name [of ?m ErrNoSuchProfile ?p None ?d "''4566e69f''" ?p' None] b l
    by (auto simp: exampleDeps_def exampleEvents_def)
qed

section \<open>The load operations: proofs\<close>

subsection \<open>The request of a batch\<close>

lemma collectUsers_nonBlank:
  assumes "c + length (nonBlank us) \<le> length users"
  shows "\<exists>users'. collectUsers us users c = Inr (users', c + length (nonBlank us)) \<and>
           length users' = length users \<and>
           take (c + length (nonBlank us)) users' = take c users @ nonBlank us"
  using assms
proof (induction us arbitrary: users c)
  case Nil
  then show ?case by (simp add: nonBlank_def)
next
  case (Cons u us)
  show ?case
  proof (cases "u = []")
    case True
    then show ?thesis using Cons.IH [of c users] Cons.prems by (simp add: nonBlank_def)
  next
    case False
    then have c: "c < length users" and
      le: "Suc c + length (nonBlank us) \<le> length (users[c := u])"
      using Cons.prems by (simp_all add: nonBlank_def)
    from Cons.IH [OF le] obtain users' where
      r: "collectUsers us (users[c := u]) (Suc c) = Inr (users', Suc c + length (nonBlank us))"
      and l: "length users' = length users"
      and t: "take (Suc c + length (nonBlank us)) users' = take (Suc c) (users[c := u]) @ nonBlank us"
      by auto
    have "take (Suc c) (users[c := u]) = take c users @ [u]"
      using c by (simp add: take_Suc_conv_app_nth)
    then show ?thesis using False c r l t by (simp add: nonBlank_def)
  qed
qed

lemma LoadMany_within_size:
  assumes "length us \<le> LoadManyMaxSize"
  shows "LoadMany d us =
           (if nonBlank us = [] then Inr ((None, None), [])
            else
              (case ExchangeJSON d loadManyURL (nonBlank us) of
                 Inr j \<Rightarrow>
                   (case andThen (assertArray (Some j)) (\<lambda>js. loadManyLoop js []) of
                      Inl _ \<Rightarrow> Inr ((None, Some (parseError loadManyURL)), [(loadManyURL, nonBlank us)])
                    | Inr r \<Rightarrow> Inr (r, [(loadManyURL, nonBlank us)]))
               | Inl err \<Rightarrow> Inr ((None, Some (transformError d err)), [(loadManyURL, nonBlank us)])))"
proof -
  have "length (nonBlank us) \<le> length us" by (simp add: nonBlank_def)
  then have "0 + length (nonBlank us) \<le> length (replicate LoadManyMaxSize ([] :: string))"
    using assms by simp
  from collectUsers_nonBlank [OF this] obtain users' where
    r: "collectUsers us (replicate LoadManyMaxSize []) 0 = Inr (users', length (nonBlank us))"
    and t: "take (length (nonBlank us)) users' = nonBlank us"
    by auto
  show ?thesis
    using assms by (simp add: LoadMany_def r t Let_def)
qed

text \<open>
  Claim C8. \<open>LoadManyMaxSize\<close> is 100. With more usernames than that, \<open>LoadMany\<close>
  fails with \<open>ErrMaxSizeExceeded\<close> carrying their number, and no request reaches the
  transport. Otherwise the one request it sends carries the non-empty usernames in their
  order; and when there is none (all are empty, or none is given) it sends nothing and
  returns the nil slice with no error.
\<close>

theorem LoadMany_size_and_payload:
  "LoadManyMaxSize = 100 \<and>
   (LoadManyMaxSize < length us
      \<longrightarrow> LoadMany d us = Inr ((None, Some (ErrMaxSizeExceeded (int (length us)))), [])) \<and>
   (length us \<le> LoadManyMaxSize \<and> nonBlank us = []
      \<longrightarrow> LoadMany d us = Inr ((None, None), [])) \<and>
   (length us \<le> LoadManyMaxSize \<and> nonBlank us \<noteq> []
      \<longrightarrow> (\<exists>r. LoadMany d us = Inr (r, [(loadManyURL, nonBlank us)])))"
proof (intro conjI impI)
  show "LoadManyMaxSize = 100" by (simp add: LoadManyMaxSize_def)
  show "LoadMany d us = Inr ((None, Some (ErrMaxSizeExceeded (int (length us)))), [])"
    if "LoadManyMaxSize < length us"
    using that by (simp add: LoadMany_def)
  show "LoadMany d us = Inr ((None, None), [])"
    if "length us \<le> LoadManyMaxSize \<and> nonBlank us = []"
    using that by (simp add: LoadMany_within_size)
  show "\<exists>r. LoadMany d us = Inr (r, [(loadManyURL, nonBlank us)])"
    if "length us \<le> LoadManyMaxSize \<and> nonBlank us \<noteq> []"
    using that by (simp add: LoadMany_within_size split: sum.splits)
qed

theorem LoadMany_size_and_payload_witness:
  "LoadMany noTransport (replicate 101 ''Notch'')
     = Inr ((None, Some (ErrMaxSizeExceeded 101)), []) \<and>
   LoadMany noTransport [[], []] = Inr ((None, None), []) \<and>
   LoadMany noTransport [] = Inr ((None, None), []) \<and>
   (\<exists>r. LoadMany noTransport [[], ''Notch'', [], ''jeb_'']
          = Inr (r, [(loadManyURL, [''Notch'', ''jeb_''])]))"
  using LoadMany_size_and_payload [of "replicate 101 ''Notch''" noTransport]
    LoadMany_size_and_payload [of "[[], []]" noTransport]
    LoadMany_size_and_payload [of "[]" noTransport]
    LoadMany_size_and_payload [of "[[], ''Notch'', [], ''jeb_'']" noTransport]
  by (simp add: nonBlank_def)

subsection \<open>Failure leaves no partial result\<close>

lemma buildProfile_cases:
  assumes "buildProfile m demoErr = Inr (p, err)"
  shows "(p = None \<and> err = Some demoErr) \<or> (p \<noteq> None \<and> err = None)"
  using assms
  by (auto simp: buildProfile_def andThen_eq_Inr Let_def split: if_splits)

lemma entryProfile_cases:
  assumes "entryProfile doc = Inr (p, err)"
  shows "(p = None \<and> err = Some ErrNoSuchProfile) \<or> (p \<noteq> None \<and> err = None)"
  using assms
  by (auto simp: entryProfile_def andThen_eq_Inr dest: buildProfile_cases)

lemma loadManyLoop_Cons:
  "loadManyLoop (doc # rest) ps =
     andThen (entryProfile doc) (\<lambda>(pr, err).
       (case err of
          Some e \<Rightarrow> if e = ErrNoSuchProfile then loadManyLoop rest ps else Inr (None, Some e)
        | None \<Rightarrow> loadManyLoop rest (ps @ [pr])))"
  by (cases "assertMap (Some doc)") (simp_all add: entryProfile_def)

lemma loadManyLoop_kept:
  assumes "\<not> list_ex (\<lambda>doc. isl (entryProfile doc)) docs"
  shows "loadManyLoop docs ps = Inr (Some (ps @ keptProfiles docs), None)"
  using assms
proof (induction docs arbitrary: ps)
  case Nil
  then show ?case by (simp add: keptProfiles_def)
next
  case (Cons doc docs)
  then obtain pr err where e: "entryProfile doc = Inr (pr, err)"
    by (cases "entryProfile doc") auto
  have IH: "loadManyLoop docs qs = Inr (Some (qs @ keptProfiles docs), None)" for qs
    using Cons by simp
  from entryProfile_cases [OF e] show ?case
    by (subst loadManyLoop_Cons) (auto simp: e IH keptProfiles_def simp del: loadManyLoop.simps)
qed

lemma loadManyLoop_panics:
  assumes "list_ex (\<lambda>doc. isl (entryProfile doc)) docs"
  shows "\<exists>p. loadManyLoop docs ps = Inl p"
  using assms
proof (induction docs arbitrary: ps)
  case Nil
  then show ?case by simp
next
  case (Cons doc docs)
  show ?case
  proof (cases "entryProfile doc")
    case (Inl p)
    then show ?thesis by (subst loadManyLoop_Cons) simp
  next
    case (Inr r)
    obtain pr err where r: "r = (pr, err)" by (cases r)
    have rest: "list_ex (\<lambda>doc. isl (entryProfile doc)) docs"
      using Cons.prems Inr by simp
    from entryProfile_cases [OF Inr [unfolded r]] Cons.IH [OF rest]
    show ?thesis
      by (subst loadManyLoop_Cons) (auto simp: Inr r simp del: loadManyLoop.simps)
  qed
qed

lemma loadManyLoop_atomic:
  "loadManyLoop docs ps = Inr (qs, err) \<Longrightarrow> err = None \<and> qs \<noteq> None"
  by (cases "list_ex (\<lambda>doc. isl (entryProfile doc)) docs")
    (use loadManyLoop_panics [of docs ps] loadManyLoop_kept [of docs ps] in auto)

lemma loadByName_atomic: "snd (loadByName d ep) \<noteq> None \<longrightarrow> fst (loadByName d ep) = None"
  by (auto simp: loadByName_def andThen_eq_Inr split: sum.splits dest: buildProfile_cases)

lemma LoadWithNameHistory_atomic:
  "snd (LoadWithNameHistory d i) \<noteq> None \<longrightarrow> fst (LoadWithNameHistory d i) = None"
  by (auto simp: LoadWithNameHistory_def split: sum.splits)

lemma LoadWithProperties_atomic:
  "snd (LoadWithProperties d i) \<noteq> None \<longrightarrow> fst (LoadWithProperties d i) = None"
  by (auto simp: LoadWithProperties_def Let_def andThen_eq_Inr
      split: sum.splits option.splits if_splits dest: buildProfile_cases)

lemma LoadMany_returns:
  "\<exists>ps err sent. LoadMany d us = Inr ((ps, err), sent) \<and> (err \<noteq> None \<longrightarrow> ps = None)"
proof (cases "length us \<le> LoadManyMaxSize")
  case False
  then show ?thesis by (simp add: LoadMany_def)
next
  case True
  show ?thesis
    unfolding LoadMany_within_size [OF True]
    by (auto simp: andThen_eq_Inr split: sum.splits dest: loadManyLoop_atomic)
qed

lemma LoadMany_batch:
  assumes "length us \<le> LoadManyMaxSize" and "nonBlank us \<noteq> []"
    and "ExchangeJSON d loadManyURL (nonBlank us) = Inr (JArray docs)"
  shows "LoadMany d us =
           Inr (if list_ex (\<lambda>doc. isl (entryProfile doc)) docs
                then (None, Some (parseError loadManyURL))
                else (Some (keptProfiles docs), None),
                [(loadManyURL, nonBlank us)])"
proof (cases "list_ex (\<lambda>doc. isl (entryProfile doc)) docs")
  case True
  from loadManyLoop_panics [OF True, of "[]"] show ?thesis
    using assms True by (auto simp: LoadMany_within_size)
next
  case False
  from loadManyLoop_kept [OF False, of "[]"] show ?thesis
    using assms False by (simp add: LoadMany_within_size)
qed

text \<open>
  Claim C7. Whenever \<open>Load\<close>, \<open>LoadAtTime\<close>, \<open>LoadByID\<close>, \<open>LoadWithNameHistory\<close> or
  \<open>LoadWithProperties\<close> returns an error, the profile it returns is nil; \<open>LoadMany\<close>
  always returns (no panic escapes it), and when its error is not nil its slice is nil.
  When the transport answers a batch with an array of documents, the result is the
  profiles of the documents in order, those that resolve to \<open>ErrNoSuchProfile\<close> (the
  demo accounts) left out, with no error; unless some document fails otherwise (it is
  not of the expected shape), in which case the whole batch fails with the parse error
  and the nil slice.
\<close>

theorem load_operations_atomic:
  "(snd (Load d u) \<noteq> None \<longrightarrow> fst (Load d u) = None) \<and>
   (snd (LoadAtTime d u tm) \<noteq> None \<longrightarrow> fst (LoadAtTime d u tm) = None) \<and>
   (snd (LoadByID d i) \<noteq> None \<longrightarrow> fst (LoadByID d i) = None) \<and>
   (snd (LoadWithNameHistory d i) \<noteq> None \<longrightarrow> fst (LoadWithNameHistory d i) = None) \<and>
   (snd (LoadWithProperties d i) \<noteq> None \<longrightarrow> fst (LoadWithProperties d i) = None) \<and>
   (\<exists>ps err sent. LoadMany d us = Inr ((ps, err), sent) \<and> (err \<noteq> None \<longrightarrow> ps = None)) \<and>
   (length us \<le> LoadManyMaxSize \<and> nonBlank us \<noteq> [] \<and>
    ExchangeJSON d loadManyURL (nonBlank us) = Inr (JArray docs)
      \<longrightarrow> LoadMany d us =
            Inr (if list_ex (\<lambda>doc. isl (entryProfile doc)) docs
                 then (None, Some (parseError loadManyURL))
                 else (Some (keptProfiles docs), None),
                 [(loadManyURL, nonBlank us)]))"
  using loadByName_atomic [of d "loadURL u"] loadByName_atomic [of d "loadAtTimeURL u tm"]
    LoadWithNameHistory_atomic [of d i] LoadWithProperties_atomic [of d i]
    LoadMany_returns [of d us] LoadMany_batch [of us d docs]
  by (simp add: Load_def LoadAtTime_def LoadByID_def)

theorem load_operations_atomic_witness:
  "snd (Load (batchDeps mixedBatch) ''Notch'') = Some ErrNoSuchProfile \<and>
   fst (Load (batchDeps mixedBatch) ''Notch'') = None \<and>
   snd (LoadWithProperties (batchDeps mixedBatch) ''069a79f4'') = Some ErrNoSuchProfile \<and>
   fst (LoadWithProperties (batchDeps mixedBatch) ''069a79f4'') = None \<and>
   LoadMany (batchDeps mixedBatch) [''Notch'', ''demo'', ''jeb_'']
     = Inr ((Some [Some \<lparr>ID = ''069a79f4'', ProfileName = ''Notch'', NameHistory = None,
                          Properties = None\<rparr>,
                   Some \<lparr>ID = ''853c80ef'', ProfileName = ''jeb_'', NameHistory = Some [],
                          Properties = None\<rparr>], None),
            [(loadManyURL, [''Notch'', ''demo'', ''jeb_''])]) \<and>
   LoadMany (batchDeps brokenBatch) [''Notch'', ''jeb_'']
     = Inr ((None, Some (UrlError ''Parse'' loadManyURL ErrUnknownFormat)),
            [(loadManyURL, [''Notch'', ''jeb_''])])"
proof -
  have e1: "snd (Load (batchDeps mixedBatch) ''Notch'') = Some ErrNoSuchProfile"
    by (simp add: Load_def loadByName_def batchDeps_def exampleDeps_def transformError_def
        exampleUnwrap_def)
  have e2: "snd (LoadWithProperties (batchDeps mixedBatch) ''069a79f4'') = Some ErrNoSuchProfile"
    by (simp add: LoadWithProperties_def batchDeps_def exampleDeps_def transformError_def
        exampleUnwrap_def)
  have x1: "ExchangeJSON (batchDeps mixedBatch) loadManyURL (nonBlank [''Notch'', ''demo'', ''jeb_''])
              = Inr (JArray mixedBatch)"
    by (simp add: batchDeps_def exampleDeps_def)
  have x2: "ExchangeJSON (batchDeps brokenBatch) loadManyURL (nonBlank [''Notch'', ''jeb_''])
              = Inr (JArray brokenBatch)"
    by (simp add: batchDeps_def exampleDeps_def)
  have k1: "\<not> list_ex (\<lambda>doc. isl (entryProfile doc)) mixedBatch"
    by (simp add: mixedBatch_def demoDocument_def entryProfile_def buildProfile_def flagSet_def
        lookup_def emptyHist_def)
  have k2: "keptProfiles mixedBatch =
              [Some \<lparr>ID = ''069a79f4'', ProfileName = ''Notch'', NameHistory = None,
                     Properties = None\<rparr>,
               Some \<lparr>ID = ''853c80ef'', ProfileName = ''jeb_'', NameHistory = Some [],
                     Properties = None\<rparr>]"
    by (simp add: keptProfiles_def mixedBatch_def demoDocument_def entryProfile_def
        buildProfile_def flagSet_def lookup_def emptyHist_def)
  have k3: "list_ex (\<lambda>doc. isl (entryProfile doc)) brokenBatch"
    by (simp add: brokenBatch_def entryProfile_def buildProfile_def flagSet_def lookup_def)
  show ?thesis
    using load_operations_atomic [of "batchDeps mixedBatch" "''Notch''" 0 "''069a79f4''"
        "[''Notch'', ''demo'', ''jeb_'']" mixedBatch]
      load_operations_atomic [of "batchDeps brokenBatch" "''Notch''" 0 "''069a79f4''"
        "[''Notch'', ''jeb_'']" brokenBatch]
      e1 e2 x1 x2 k1 k2 k3
    by (simp add: LoadManyMaxSize_def nonBlank_def parseError_def)
qed

subsection \<open>Demo accounts\<close>







section \<open>The appearance decoder: proofs\<close>

lemma populateDecoded_steps:
  "populateDecoded j props =
     andThen (assertMap (lookup j ''textures'')) (\<lambda>ts.
     andThen (skinStep j ts props) (capeStep ts))"
  unfolding populateDecoded_def skinStep_def capeStep_def [abs_def] by (rule refl)

lemma hasStringD: "hasString m k \<Longrightarrow> \<exists>s. lookup m k = Some (JString s)"
  by (auto simp: hasString_def split: option.splits json.splits)

lemma capeStep_Model: "capeStep ts props2 = Inr props' \<Longrightarrow> Model props' = Model props2"
  by (auto simp: capeStep_def andThen_eq_Inr split: option.splits)

lemma capeStep_returns:
  assumes "case lookup ts ''CAPE'' of Some c \<Rightarrow> wellFormedCape c | None \<Rightarrow> True"
  shows "\<exists>props'. capeStep ts props2 = Inr props'"
proof (cases "lookup ts ''CAPE''")
  case None
  then show ?thesis by (simp add: capeStep_def)
next
  case (Some c)
  with assms have wf: "wellFormedCape c" by simp
  then obtain cape where c: "c = JObject cape"
    by (cases c) (simp_all add: wellFormedCape_def)
  from wf c obtain url where "lookup cape ''url'' = Some (JString url)"
    using hasStringD by (auto simp: wellFormedCape_def)
  then show ?thesis by (simp add: capeStep_def Some c)
qed

lemma metadata_Model:
  assumes "(case lookup skin ''metadata'' of
              Some s' \<Rightarrow>
                andThen (assertMap (Some s')) (\<lambda>skinMeta.
                  (case lookup skinMeta ''model'' of
                     Some m \<Rightarrow>
                       andThen (assertString (Some m)) (\<lambda>model.
                         if model = ''slim'' then Inr (props1\<lparr>Model := Alex\<rparr>)
                         else Inr props1)
                   | None \<Rightarrow> Inr props1))
            | None \<Rightarrow> Inr props1) = Inr props2"
    and "Model props1 = Steve"
  shows "Model props2 = (if slimSkin (JObject skin) then Alex else Steve)"
proof (cases "lookup skin ''metadata''")
  case None
  then show ?thesis using assms by (simp add: slimSkin_def)
next
  case (Some s')
  with assms(1) obtain skinMeta where s': "s' = JObject skinMeta"
    and r: "(case lookup skinMeta ''model'' of
               Some m \<Rightarrow>
                 andThen (assertString (Some m)) (\<lambda>model.
                   if model = ''slim'' then Inr (props1\<lparr>Model := Alex\<rparr>) else Inr props1)
             | None \<Rightarrow> Inr props1) = Inr props2"
    by (auto simp: andThen_eq_Inr assertMap_Inr)
  show ?thesis
  proof (cases "lookup skinMeta ''model''")
    case None
    then show ?thesis using r assms(2) by (simp add: slimSkin_def Some s')
  next
    case (Some m)
    with r obtain model where m: "m = JString model"
      by (auto simp: andThen_eq_Inr assertString_Inr)
    with r Some have r': "(if model = ''slim'' then Inr (props1\<lparr>Model := Alex\<rparr>) else Inr props1)
               = Inr props2"
      by (auto split: if_splits)
    show ?thesis
    proof (cases "model = ''slim''")
      case True
      then have "props2 = props1\<lparr>Model := Alex\<rparr>" using r' by simp
      then show ?thesis
        using True by (simp add: slimSkin_def \<open>lookup skin ''metadata'' = Some s'\<close> s' Some m)
    next
      case False
      then have "props2 = props1" using r' by simp
      then show ?thesis
        using False assms(2)
        by (simp add: slimSkin_def \<open>lookup skin ''metadata'' = Some s'\<close> s' Some m)
    qed
  qed
qed

lemma skinStep_Model:
  assumes "skinStep j ts props = Inr props2"
  shows "case lookup ts ''SKIN'' of
           None \<Rightarrow> \<exists>pid. lookup j ''profileId'' = Some (JString pid) \<and>
                         defaultModel pid = Inr (Model props2)
         | Some s \<Rightarrow> Model props2 = (if slimSkin s then Alex else Steve)"
proof (cases "lookup ts ''SKIN''")
  case None
  then show ?thesis using assms
    by (auto simp: skinStep_def andThen_eq_Inr assertString_Inr)
next
  case (Some s)
  from assms Some obtain skin url where s: "s = JObject skin"
    and rest: "(case lookup skin ''metadata'' of
                 Some s' \<Rightarrow>
                   andThen (assertMap (Some s')) (\<lambda>skinMeta.
                     (case lookup skinMeta ''model'' of
                        Some m \<Rightarrow>
                          andThen (assertString (Some m)) (\<lambda>model.
                            if model = ''slim''
                            then Inr (props\<lparr>SkinURL := url, Model := Steve\<rparr>\<lparr>Model := Alex\<rparr>)
                            else Inr (props\<lparr>SkinURL := url, Model := Steve\<rparr>))
                      | None \<Rightarrow> Inr (props\<lparr>SkinURL := url, Model := Steve\<rparr>)))
               | None \<Rightarrow> Inr (props\<lparr>SkinURL := url, Model := Steve\<rparr>)) = Inr props2"
    unfolding skinStep_def Let_def by (auto simp only: option.case andThen_eq_Inr assertMap_Inr)
  have "Model props2 = (if slimSkin (JObject skin) then Alex else Steve)"
    by (rule metadata_Model [OF rest]) simp
  then show ?thesis by (simp add: Some s)
qed

lemma skinStep_returns:
  assumes "case lookup ts ''SKIN'' of
             Some s \<Rightarrow> wellFormedSkin s
           | None \<Rightarrow> wellFormedId (lookup j ''profileId'')"
  shows "\<exists>props2. skinStep j ts props = Inr props2"
proof (cases "lookup ts ''SKIN''")
  case None
  with assms have "wellFormedId (lookup j ''profileId'')" by simp
  then obtain pid where "lookup j ''profileId'' = Some (JString pid)"
    and "defaultModel pid = Inr (selectModel evenDigit pid)"
    by (auto simp: wellFormedId_def defaultModel_selectModel split: option.splits json.splits)
  then show ?thesis by (simp add: skinStep_def None)
next
  case (Some s)
  with assms have wf: "wellFormedSkin s" by simp
  then obtain skin where s: "s = JObject skin"
    by (cases s) (simp_all add: wellFormedSkin_def)
  from wf s obtain url where url: "lookup skin ''url'' = Some (JString url)"
    using hasStringD by (auto simp: wellFormedSkin_def)
  show ?thesis
  proof (cases "lookup skin ''metadata''")
    case None
    then show ?thesis by (simp add: skinStep_def Some s url)
  next
    case (Some s')
    with wf s obtain skinMeta where s': "s' = JObject skinMeta"
      and m: "lookup skinMeta ''model'' = None \<or> hasString skinMeta ''model''"
      by (cases s') (simp_all add: wellFormedSkin_def)
    show ?thesis
    proof (cases "lookup skinMeta ''model''")
      case None
      then show ?thesis
        by (simp add: skinStep_def \<open>lookup ts ''SKIN'' = Some s\<close> s url Some s')
    next
      case (Some v)
      with m obtain model where "lookup skinMeta ''model'' = Some (JString model)"
        using hasStringD by fastforce
      then show ?thesis
        by (simp add: skinStep_def \<open>lookup ts ''SKIN'' = Some s\<close> s url
            \<open>lookup skin ''metadata'' = Some s'\<close> s' Let_def)
    qed
  qed
qed

text \<open>
  Claim C4. \<open>populateTextures\<close> hands the decoded document to \<open>populateDecoded\<close>, which
  returns on every well-formed document. Whenever it returns, the \<open>Model\<close> of the
  resulting \<open>Properties\<close> is resolved from the document and not from what the
  \<open>Properties\<close> held before: without a \<open>"SKIN"\<close> entry it is what \<open>defaultModel\<close> gives
  for the document's \<open>"profileId"\<close>; with a \<open>"SKIN"\<close> entry it is Alex when
  \<open>metadata.model\<close> is \<open>"slim"\<close> and Steve otherwise.
\<close>

theorem populateDecoded_model:
  "(DecodeString d enc = Inr bs \<and> Decode d bs = Inr j \<longrightarrow>
      populateTextures d enc props
        = andThen (populateDecoded j props) (\<lambda>props'. Inr (None, props'))) \<and>
   (wellFormedTextures j \<longrightarrow> (\<exists>props'. populateDecoded j props = Inr props')) \<and>
   (populateDecoded j props = Inr props' \<longrightarrow>
      (\<exists>ts. lookup j ''textures'' = Some (JObject ts) \<and>
         (case lookup ts ''SKIN'' of
            None \<Rightarrow> \<exists>pid. lookup j ''profileId'' = Some (JString pid) \<and>
                          defaultModel pid = Inr (Model props')
          | Some s \<Rightarrow> Model props' = (if slimSkin s then Alex else Steve))))"
proof (intro conjI impI)
  assume "DecodeString d enc = Inr bs \<and> Decode d bs = Inr j"
  then show "populateTextures d enc props
               = andThen (populateDecoded j props) (\<lambda>props'. Inr (None, props'))"
    by (simp add: populateTextures_def)
next
  assume "wellFormedTextures j"
  then obtain ts where ts: "lookup j ''textures'' = Some (JObject ts)"
    by (auto simp: wellFormedTextures_def split: option.splits json.splits)
  with \<open>wellFormedTextures j\<close>
  have skin: "case lookup ts ''SKIN'' of
                Some s \<Rightarrow> wellFormedSkin s
              | None \<Rightarrow> wellFormedId (lookup j ''profileId'')"
    and cape: "case lookup ts ''CAPE'' of Some c \<Rightarrow> wellFormedCape c | None \<Rightarrow> True"
    by (simp_all add: wellFormedTextures_def)
  from skinStep_returns [OF skin] obtain props2 where "skinStep j ts props = Inr props2"
    by blast
  moreover from capeStep_returns [OF cape] obtain props3 where "capeStep ts props2 = Inr props3"
    by blast
  ultimately show "\<exists>props'. populateDecoded j props = Inr props'"
    by (simp add: populateDecoded_steps ts)
next
  assume "populateDecoded j props = Inr props'"
  then obtain ts props2 where ts: "lookup j ''textures'' = Some (JObject ts)"
    and s: "skinStep j ts props = Inr props2" and c: "capeStep ts props2 = Inr props'"
    by (auto simp: populateDecoded_steps andThen_eq_Inr assertMap_Inr)
  from skinStep_Model [OF s] capeStep_Model [OF c] ts
  show "\<exists>ts. lookup j ''textures'' = Some (JObject ts) \<and>
         (case lookup ts ''SKIN'' of
            None \<Rightarrow> \<exists>pid. lookup j ''profileId'' = Some (JString pid) \<and>
                          defaultModel pid = Inr (Model props')
          | Some s \<Rightarrow> Model props' = (if slimSkin s then Alex else Steve))"
    by (auto split: option.splits)
qed

theorem populateDecoded_model_witness:
  "wellFormedTextures capeOnlyDocument \<and> wellFormedTextures slimDocument \<and>
   wellFormedTextures plainDocument \<and>
   (\<exists>props'. populateDecoded capeOnlyDocument newProperties = Inr props' \<and> Model props' = Alex) \<and>
   (\<exists>props'. populateDecoded slimDocument newProperties = Inr props' \<and> Model props' = Alex) \<and>
   (\<exists>props'. populateDecoded plainDocument (newProperties\<lparr>Model := Alex\<rparr>) = Inr props' \<and>
      Model props' = Steve)"
proof -
  have wf: "wellFormedTextures capeOnlyDocument" "wellFormedTextures slimDocument"
    "wellFormedTextures plainDocument"
    by (simp_all add: capeOnlyDocument_def slimDocument_def plainDocument_def
        wellFormedTextures_def wellFormedSkin_def wellFormedCape_def wellFormedId_def
        hasString_def lookup_def lowerHex_def)
  have dm: "defaultModel ''00000001000000000000000000000000'' = Inr Alex"
    by (simp add: defaultModel_def byteAt_def isEven_def)
  have c: "\<exists>props'. populateDecoded capeOnlyDocument newProperties = Inr props' \<and> Model props' = Alex"
  proof -
    from populateDecoded_model [where j = capeOnlyDocument and props = newProperties] wf(1)
    obtain props' where r: "populateDecoded capeOnlyDocument newProperties = Inr props'"
      by blast
    with populateDecoded_model [where j = capeOnlyDocument and props = newProperties and props' = props']
    have "defaultModel ''00000001000000000000000000000000'' = Inr (Model props')"
      by (simp add: capeOnlyDocument_def lookup_def)
    with dm r show ?thesis by simp
  qed
  have s: "\<exists>props'. populateDecoded slimDocument newProperties = Inr props' \<and> Model props' = Alex"
  proof -
    from populateDecoded_model [where j = slimDocument and props = newProperties] wf(2)
    obtain props' where r: "populateDecoded slimDocument newProperties = Inr props'"
      by blast
    with populateDecoded_model [where j = slimDocument and props = newProperties and props' = props']
    have "Model props' = Alex"
      by (simp add: slimDocument_def lookup_def slimSkin_def)
    with r show ?thesis by simp
  qed
  have p: "\<exists>props'. populateDecoded plainDocument (newProperties\<lparr>Model := Alex\<rparr>) = Inr props' \<and>
             Model props' = Steve"
  proof -
    from populateDecoded_model [where j = plainDocument and props = "newProperties\<lparr>Model := Alex\<rparr>"] wf(3)
    obtain props' where r: "populateDecoded plainDocument (newProperties\<lparr>Model := Alex\<rparr>) = Inr props'"
      by blast
    with populateDecoded_model [where j = plainDocument and props = "newProperties\<lparr>Model := Alex\<rparr>"
        and props' = props']
    have "Model props' = Steve"
      by (simp add: plainDocument_def lookup_def slimSkin_def)
    with r show ?thesis by simp
  qed
  from wf c s p show ?thesis by blast
qed

end
